theory Spec2Isabelle
  imports Main "HOL-Library.Word"
begin

unbundle bit_operations_syntax

section \<open>Machine types, errors and external codecs\<close>

text \<open>
  Bytes are \<open>uint8_t\<close>. Buffer positions and sizes (\<open>size_t\<close>, 64 bits) are natural
  numbers, with the reduction modulo \<open>2 ^ 64\<close> written out at every addition the source
  performs on them. A C++ \<open>int\<close> is a 32-bit word read through \<open>sint\<close>; the accumulator of
  \<open>read_extra_length\<close> therefore wraps in two's complement, which is what the compiled
  loop does (the C++ standard leaves signed overflow undefined).
\<close>

type_synonym byte = "8 word"
type_synonym cint = "32 word"

datatype error =
    OutOfBounds
  | RuntimeError string
  | OutOfRange
  | LengthError

datatype warning = SizeMismatch int int

text \<open>
  \<open>CompressionType\<close> is an \<open>enum class\<close> over \<open>uint8_t\<close> obtained by a cast from the low six
  bits of a flags field, so it also holds values without an enumerator (\<open>Other\<close>).
\<close>

datatype CompressionType = None_t | Lzma | Lz4 | Lz4hc | Lzham | Other byte

datatype GameMode = Standard | Arknights

definition FLAG_COMPRESSION_MASK :: "32 word" where
  "FLAG_COMPRESSION_MASK = 0x3F"

definition FLAG_BLOCKS_AND_DIR_COMBINED :: "32 word" where
  "FLAG_BLOCKS_AND_DIR_COMBINED = 0x40"

definition FLAG_BLOCK_INFO_AT_END :: "32 word" where
  "FLAG_BLOCK_INFO_AT_END = 0x80"

definition FLAG_BLOCK_INFO_NEEDS_ALIGNMENT :: "32 word" where
  "FLAG_BLOCK_INFO_NEEDS_ALIGNMENT = 0x200"

definition size_t_add :: "nat \<Rightarrow> nat \<Rightarrow> nat" where
  "size_t_add a b = (a + b) mod 2 ^ 64"

text \<open>Conversion of a (signed) integer to \<open>size_t\<close>: the value modulo \<open>2 ^ 64\<close>.\<close>

definition size_t_of_int :: "int \<Rightarrow> nat" where
  "size_t_of_int i = nat (i mod 2 ^ 64)"

text \<open>Conversion of a \<open>uint32_t\<close> to \<open>int\<close>: values from \<open>2 ^ 31\<close> on become negative.\<close>

definition int_of_u32 :: "32 word \<Rightarrow> int" where
  "int_of_u32 w = sint w"

text \<open>
  The three decompression libraries are not part of the repository; they are parameters of
  the model. Each takes what the call passes (source bytes, sizes) and gives the status it
  returns together with the bytes it stored at the start of the destination buffer.
  \<^item> \<open>LZ4_decompress_safe src compressedSize dstCapacity\<close>
  \<^item> \<open>LzmaUncompress src destLen props\<close>, where \<open>src\<close> is the slice after the properties
  \<^item> \<open>lzham_decompress_memory src destLen\<close>
  \<open>SZ_OK\<close> and \<open>LZHAM_COMP_STATUS_SUCCESS\<close> are the constants of the libraries' headers.
\<close>

record codecs =
  LZ4_decompress_safe :: "byte list \<Rightarrow> int \<Rightarrow> int \<Rightarrow> cint \<times> byte list"
  LzmaUncompress :: "byte list \<Rightarrow> nat \<Rightarrow> byte list \<Rightarrow> cint \<times> byte list"
  SZ_OK :: cint
  lzham_decompress_memory :: "byte list \<Rightarrow> nat \<Rightarrow> cint \<times> byte list"
  LZHAM_COMP_STATUS_SUCCESS :: cint

text \<open>
  \<open>std::vector::resize\<close>: truncation, or extension by zero bytes. A destination vector of
  \<open>n\<close> zero bytes into whose start a library stored \<open>written\<close> is \<open>resize n written\<close>.
\<close>

definition resize :: "nat \<Rightarrow> byte list \<Rightarrow> byte list" where
  "resize n xs = take n xs @ replicate (n - length xs) 0"

text \<open>\<open>static_cast<int>\<close> of a \<open>size_t\<close>: the low 32 bits, read as signed.\<close>

definition int_of_size_t :: "nat \<Rightarrow> int" where
  "int_of_size_t n = sint (word_of_nat n :: 32 word)"

section \<open>The pre-transform decoder\<close>

text \<open>
  \<open>read_extra_length\<close> (main.cc, lines 38-48). The cursor is passed by reference in the
  source: the model returns the accumulated length together with the new cursor. The third
  argument is the running value of the local \<open>length\<close>, 0 at the call.
\<close>

function read_extra_length_from :: "byte list \<Rightarrow> nat \<Rightarrow> cint \<Rightarrow> cint \<times> nat" where
  "read_extra_length_from data cursor len =
     (if cursor < length data then
        (let b = data ! cursor;
             len' = len + ucast b;
             cursor' = cursor + 1
         in if b \<noteq> 0xFF then (len', cursor') else read_extra_length_from data cursor' len')
      else (len, cursor))"
  by pat_completeness auto
termination
  by (relation "measure (\<lambda>(data, cursor, len). length data - cursor)") auto

declare read_extra_length_from.simps [simp del]

definition read_extra_length :: "byte list \<Rightarrow> nat \<Rightarrow> cint \<times> nat" where
  "read_extra_length data cursor = read_extra_length_from data cursor 0"

text \<open>The token rewrite of line 80: \<open>(literal_len << 4) | match_len_nibble\<close>.\<close>

definition swap_nibbles :: "byte \<Rightarrow> byte" where
  "swap_nibbles token = push_bit 4 (token AND 0x0F) OR (drop_bit 4 token AND 0x0F)"

text \<open>
  Lines 76-89 of the loop body: the token is rewritten in place, the literal length is
  determined and both \<open>ip\<close> and \<open>op\<close> advance by it. The caller guarantees \<open>ip < size\<close>.
  The result is the buffer, \<open>ip\<close>, \<open>op\<close>, the match-length nibble and
  \<open>current_literal_len\<close>.
\<close>

definition literal_phase ::
  "byte list \<Rightarrow> nat \<Rightarrow> nat \<Rightarrow> byte list \<times> nat \<times> nat \<times> byte \<times> nat" where
  "literal_phase fixed_data ip op =
     (let token = fixed_data ! ip;
          literal_len = token AND 0x0F;
          match_len_nibble = drop_bit 4 token AND 0x0F;
          fixed_data' = fixed_data[ip := swap_nibbles token];
          ip1 = size_t_add ip 1;
          (extra, ip2) = (if literal_len = 0x0F then read_extra_length fixed_data' ip1
                          else (0, ip1));
          current_literal_len = size_t_add (unat literal_len) (size_t_of_int (sint extra))
      in (fixed_data', size_t_add ip2 current_literal_len,
          size_t_add op current_literal_len, match_len_nibble, current_literal_len))"

text \<open>
  Lines 98-110: the two bytes of the match distance are exchanged and the match length is
  added to \<open>op\<close>. The two subscripts \<open>fixed_data[ip]\<close> and \<open>fixed_data[ip + 1]\<close> are
  unchecked in the source; the model reports an index outside the buffer as
  \<open>OutOfBounds\<close>.
\<close>

definition match_phase ::
  "byte list \<Rightarrow> nat \<Rightarrow> nat \<Rightarrow> byte \<Rightarrow> error + (byte list \<times> nat \<times> nat)" where
  "match_phase fixed_data ip op match_len_nibble =
     (if \<not> (ip < length fixed_data \<and> size_t_add ip 1 < length fixed_data)
      then Inl OutOfBounds
      else
        (let b0 = fixed_data ! ip;
             b1 = fixed_data ! (size_t_add ip 1);
             fixed_data' = fixed_data[ip := b1, size_t_add ip 1 := b0];
             ip1 = size_t_add ip 2;
             (extra, ip2) = (if match_len_nibble = 0x0F then read_extra_length fixed_data' ip1
                             else (0, ip1));
             current_match_len =
               size_t_add (unat match_len_nibble) (size_t_of_int (sint extra))
         in Inr (fixed_data', ip2, size_t_add op (size_t_add current_match_len 4))))"

text \<open>
  The loop of lines 74-111. With wrapping arithmetic the cursor is not monotone, so the
  loop is a partial function: \<open>None\<close> is the loop that never leaves.
\<close>

partial_function (option) lzak_loop ::
  "nat \<Rightarrow> byte list \<Rightarrow> nat \<Rightarrow> nat \<Rightarrow> (error + byte list) option" where
  "lzak_loop target fixed_data ip op =
     (if ip < length fixed_data then
        (case literal_phase fixed_data ip op of
           (fixed_data1, ip1, op1, match_len_nibble, current_literal_len) \<Rightarrow>
             if op1 \<ge> target then Some (Inr fixed_data1)
             else if size_t_add ip1 2 > length fixed_data1 then Some (Inr fixed_data1)
             else
               (case match_phase fixed_data1 ip1 op1 match_len_nibble of
                  Inl e \<Rightarrow> Some (Inl e)
                | Inr (fixed_data2, ip2, op2) \<Rightarrow> lzak_loop target fixed_data2 ip2 op2))
      else Some (Inr fixed_data))"

text \<open>
  \<open>decompress_lzak\<close> (lines 61-131). The result carries the warnings printed to the error
  stream. A negative \<open>uncompressed_size\<close> converts to a vector size above \<open>max_size\<close>, for
  which the constructor of \<open>dest\<close> throws \<open>std::length_error\<close>.
\<close>

definition decompress_lzak ::
  "codecs \<Rightarrow> byte list \<Rightarrow> int \<Rightarrow> (error + byte list \<times> warning list) option" where
  "decompress_lzak cd compressed_data uncompressed_size =
     (if compressed_data = [] then Some (Inr ([], []))
      else
        (case lzak_loop (size_t_of_int uncompressed_size) compressed_data 0 0 of
           None \<Rightarrow> None
         | Some (Inl e) \<Rightarrow> Some (Inl e)
         | Some (Inr fixed_data) \<Rightarrow>
             if uncompressed_size < 0 then Some (Inl LengthError)
             else
               (case LZ4_decompress_safe cd fixed_data (int_of_size_t (length fixed_data))
                       uncompressed_size of
                  (result, written) \<Rightarrow>
                    let dest = resize (nat uncompressed_size) written
                    in if sint result < 0
                       then Some (Inl (RuntimeError ''LZ4AK decompression failed''))
                       else if sint result \<noteq> uncompressed_size
                       then Some (Inr (resize (nat (sint result)) dest,
                                       [SizeMismatch uncompressed_size (sint result)]))
                       else Some (Inr (dest, [])))))"

section \<open>The compression dispatcher\<close>

text \<open>\<open>decompress_block\<close> (lines 133-196).\<close>

definition decompress_block ::
  "codecs \<Rightarrow> CompressionType \<Rightarrow> byte list \<Rightarrow> 32 word \<Rightarrow> GameMode
     \<Rightarrow> (error + byte list \<times> warning list) option" where
  "decompress_block cd type src decompressed_size mode =
     (if type = None_t then Some (Inr (src, []))
      else
        (case type of
           Lzma \<Rightarrow>
             if length src < 5 then Some (Inl (RuntimeError ''Invalid LZMA data''))
             else
               (case LzmaUncompress cd (drop 5 src) (unat decompressed_size) (take 5 src) of
                  (res, written) \<Rightarrow>
                    if res \<noteq> SZ_OK cd then Some (Inl (RuntimeError ''LZMA Decomp failed''))
                    else Some (Inr (resize (unat decompressed_size) written, [])))
         | Lz4 \<Rightarrow>
             (case LZ4_decompress_safe cd src (int_of_size_t (length src))
                     (int_of_u32 decompressed_size) of
                (res, written) \<Rightarrow>
                  if sint res < 0 then Some (Inl (RuntimeError ''LZ4 Decomp failed''))
                  else Some (Inr (resize (unat decompressed_size) written, [])))
         | Lz4hc \<Rightarrow>
             (case LZ4_decompress_safe cd src (int_of_size_t (length src))
                     (int_of_u32 decompressed_size) of
                (res, written) \<Rightarrow>
                  if sint res < 0 then Some (Inl (RuntimeError ''LZ4 Decomp failed''))
                  else Some (Inr (resize (unat decompressed_size) written, [])))
         | Lzham \<Rightarrow>
             if mode = Arknights then decompress_lzak cd src (int_of_u32 decompressed_size)
             else
               (case lzham_decompress_memory cd src (unat decompressed_size) of
                  (status, written) \<Rightarrow>
                    if status \<noteq> LZHAM_COMP_STATUS_SUCCESS cd
                    then Some (Inl (RuntimeError ''LZHAM Decomp failed''))
                    else Some (Inr (resize (unat decompressed_size) written, [])))
         | _ \<Rightarrow> Some (Inl (RuntimeError ''Unknown compression type''))))"

section \<open>The cursor codec\<close>

text \<open>
  \<open>swap_endian\<close> after \<open>memcpy\<close> (lines 198-225): the bytes at the cursor, first byte most
  significant. \<open>be_value\<close> is the value read, the three \<open>_be\<close> functions are the bytes
  written by \<open>push_u16_be\<close>, \<open>push_u32_be\<close>, \<open>push_s64_be\<close> and \<open>write_be\<close>.
\<close>

definition be_value :: "byte list \<Rightarrow> 'a::len word" where
  "be_value bs = foldl (\<lambda>acc b. push_bit 8 acc OR ucast b) 0 bs"

definition u16_be :: "16 word \<Rightarrow> byte list" where
  "u16_be v = [ucast (drop_bit 8 v), ucast v]"

definition u32_be :: "32 word \<Rightarrow> byte list" where
  "u32_be v = [ucast (drop_bit 24 v), ucast (drop_bit 16 v), ucast (drop_bit 8 v), ucast v]"

definition s64_be :: "64 word \<Rightarrow> byte list" where
  "s64_be v =
     [ucast (drop_bit 56 v), ucast (drop_bit 48 v), ucast (drop_bit 40 v), ucast (drop_bit 32 v),
      ucast (drop_bit 24 v), ucast (drop_bit 16 v), ucast (drop_bit 8 v), ucast v]"

text \<open>
  \<open>BinaryReader\<close> (lines 211-260) over the buffer \<open>data\<close>, the position passed in and
  returned. \<open>std::out_of_range\<close> is the error \<open>OutOfRange\<close>.
\<close>

definition read_u16 :: "byte list \<Rightarrow> nat \<Rightarrow> error + (16 word \<times> nat)" where
  "read_u16 data pos =
     (if pos + 2 > length data then Inl OutOfRange
      else Inr (be_value (take 2 (drop pos data)), pos + 2))"

definition read_u32 :: "byte list \<Rightarrow> nat \<Rightarrow> error + (32 word \<times> nat)" where
  "read_u32 data pos =
     (if pos + 4 > length data then Inl OutOfRange
      else Inr (be_value (take 4 (drop pos data)), pos + 4))"

definition read_s64 :: "byte list \<Rightarrow> nat \<Rightarrow> error + (64 word \<times> nat)" where
  "read_s64 data pos =
     (if pos + 8 > length data then Inl OutOfRange
      else Inr (be_value (take 8 (drop pos data)), pos + 8))"

text \<open>
  \<open>read_string\<close> (lines 227-234): the bytes up to a zero byte or the end of the buffer;
  the position then moves one further in both cases. A string is the list of its bytes.
\<close>

function read_string_from :: "byte list \<Rightarrow> nat \<Rightarrow> byte list \<Rightarrow> byte list \<times> nat" where
  "read_string_from data pos s =
     (if pos < length data \<and> data ! pos \<noteq> 0
      then read_string_from data (pos + 1) (s @ [data ! pos])
      else (s, pos + 1))"
  by pat_completeness auto
termination
  by (relation "measure (\<lambda>(data, pos, s). length data - pos)") auto

declare read_string_from.simps [simp del]

definition read_string :: "byte list \<Rightarrow> nat \<Rightarrow> byte list \<times> nat" where
  "read_string data pos = read_string_from data pos []"

text \<open>\<open>read_bytes\<close> and \<open>get_span\<close> (lines 236-252) differ only in copying.\<close>

definition get_span :: "byte list \<Rightarrow> nat \<Rightarrow> nat \<Rightarrow> error + (byte list \<times> nat)" where
  "get_span data pos n =
     (if pos + n > length data then Inl OutOfRange
      else Inr (take n (drop pos data), pos + n))"

definition read_bytes :: "byte list \<Rightarrow> nat \<Rightarrow> nat \<Rightarrow> error + (byte list \<times> nat)" where
  "read_bytes data pos n = get_span data pos n"

text \<open>\<open>BinaryReader::align\<close> with alignment 16: the next multiple of 16 from \<open>pos\<close> on.\<close>

function align16 :: "nat \<Rightarrow> nat" where
  "align16 pos = (if pos mod 16 \<noteq> 0 then align16 (pos + 1) else pos)"
  by pat_completeness auto
termination
  by (relation "measure (\<lambda>pos. (16 - pos mod 16) mod 16)") (auto simp: mod_Suc)

declare align16.simps [simp del]

text \<open>
  \<open>BinaryWriter\<close> (lines 262-289) appends to the output written so far.
  \<open>write_align16 out\<close> is \<open>align(16)\<close> at the position \<open>length out\<close>.
\<close>

definition write_string :: "byte list \<Rightarrow> byte list" where
  "write_string s = s @ [0]"

definition write_align16 :: "byte list \<Rightarrow> byte list" where
  "write_align16 out = out @ replicate ((16 - length out mod 16) mod 16) 0"

section \<open>The container codec\<close>

record ArchiveBlockInfo =
  uncompressed_size :: "32 word"
  compressed_size :: "32 word"
  flags :: "16 word"

record ArchiveNode =
  offset :: "64 word"
  node_size :: "64 word"
  status :: "32 word"
  path :: "byte list"

text \<open>The cast of the low six bits of a flags field to \<open>CompressionType\<close>.\<close>

definition compression_type_of :: "32 word \<Rightarrow> CompressionType" where
  "compression_type_of v =
     (if v = 0 then None_t else if v = 1 then Lzma else if v = 2 then Lz4
      else if v = 3 then Lz4hc else if v = 4 then Lzham else Other (ucast v))"

definition get_compression :: "ArchiveBlockInfo \<Rightarrow> CompressionType" where
  "get_compression b = compression_type_of (ucast (flags b) AND FLAG_COMPRESSION_MASK)"

text \<open>The header fields read by lines 323-335.\<close>

record BundleHeader =
  version :: "32 word"
  unity_ver :: "byte list"
  unity_rev :: "byte list"
  bundle_size :: "64 word"
  compressed_blocks_info_size :: "32 word"
  uncompressed_blocks_info_size :: "32 word"
  header_flags :: "32 word"

text \<open>The signature \<open>"UnityFS"\<close>, as bytes.\<close>

definition UnityFS :: "byte list" where
  "UnityFS = [0x55, 0x6E, 0x69, 0x74, 0x79, 0x46, 0x53]"

text \<open>
  Lines 321-338 of \<open>process_file\<close>: the header, and the reader position behind it. The
  signature is compared only after the version and the two strings have been read.
\<close>

definition read_header :: "byte list \<Rightarrow> error + (BundleHeader \<times> nat)" where
  "read_header raw_file =
     (case read_string raw_file 0 of (signature, p1) \<Rightarrow>
     (case read_u32 raw_file p1 of Inl e \<Rightarrow> Inl e | Inr (ver, p2) \<Rightarrow>
     (case read_string raw_file p2 of (uver, p3) \<Rightarrow>
     (case read_string raw_file p3 of (urev, p4) \<Rightarrow>
      if signature \<noteq> UnityFS then Inl (RuntimeError ''Only UnityFS format supported'')
      else
     (case read_s64 raw_file p4 of Inl e \<Rightarrow> Inl e | Inr (bsize, p5) \<Rightarrow>
     (case read_u32 raw_file p5 of Inl e \<Rightarrow> Inl e | Inr (csize, p6) \<Rightarrow>
     (case read_u32 raw_file p6 of Inl e \<Rightarrow> Inl e | Inr (usize, p7) \<Rightarrow>
     (case read_u32 raw_file p7 of Inl e \<Rightarrow> Inl e | Inr (fl, p8) \<Rightarrow>
        Inr (\<lparr> version = ver, unity_ver = uver, unity_rev = urev, bundle_size = bsize,
               compressed_blocks_info_size = csize, uncompressed_blocks_info_size = usize,
               header_flags = fl \<rparr>,
             if ver \<ge> 7 then align16 p8 else p8)))))))))"

text \<open>Lines 353-359: \<open>blocks_count\<close> block descriptors.\<close>

fun read_blocks :: "nat \<Rightarrow> byte list \<Rightarrow> nat \<Rightarrow> error + (ArchiveBlockInfo list \<times> nat)" where
  "read_blocks 0 data pos = Inr ([], pos)"
| "read_blocks (Suc k) data pos =
     (case read_u32 data pos of Inl e \<Rightarrow> Inl e | Inr (u, p1) \<Rightarrow>
     (case read_u32 data p1 of Inl e \<Rightarrow> Inl e | Inr (c, p2) \<Rightarrow>
     (case read_u16 data p2 of Inl e \<Rightarrow> Inl e | Inr (f, p3) \<Rightarrow>
     (case read_blocks k data p3 of Inl e \<Rightarrow> Inl e | Inr (bs, p) \<Rightarrow>
        Inr (\<lparr> uncompressed_size = u, compressed_size = c, flags = f \<rparr> # bs, p)))))"

text \<open>Lines 361-368: \<open>nodes_count\<close> file entries.\<close>

fun read_nodes :: "nat \<Rightarrow> byte list \<Rightarrow> nat \<Rightarrow> error + (ArchiveNode list \<times> nat)" where
  "read_nodes 0 data pos = Inr ([], pos)"
| "read_nodes (Suc k) data pos =
     (case read_s64 data pos of Inl e \<Rightarrow> Inl e | Inr (off, p1) \<Rightarrow>
     (case read_s64 data p1 of Inl e \<Rightarrow> Inl e | Inr (sz, p2) \<Rightarrow>
     (case read_u32 data p2 of Inl e \<Rightarrow> Inl e | Inr (st, p3) \<Rightarrow>
     (case read_string data p3 of (pa, p4) \<Rightarrow>
     (case read_nodes k data p4 of Inl e \<Rightarrow> Inl e | Inr (ns, p) \<Rightarrow>
        Inr (\<lparr> offset = off, node_size = sz, status = st, path = pa \<rparr> # ns, p))))))"

text \<open>Lines 349-368: the decompressed table, read by its own reader from position 0.\<close>

definition read_block_info ::
  "byte list \<Rightarrow> error + (ArchiveBlockInfo list \<times> ArchiveNode list)" where
  "read_block_info block_info_data =
     (case read_bytes block_info_data 0 16 of Inl e \<Rightarrow> Inl e | Inr (hash, p1) \<Rightarrow>
     (case read_u32 block_info_data p1 of Inl e \<Rightarrow> Inl e | Inr (blocks_count, p2) \<Rightarrow>
     (case read_blocks (unat blocks_count) block_info_data p2 of
        Inl e \<Rightarrow> Inl e | Inr (blocks, p3) \<Rightarrow>
     (case read_u32 block_info_data p3 of Inl e \<Rightarrow> Inl e | Inr (nodes_count, p4) \<Rightarrow>
     (case read_nodes (unat nodes_count) block_info_data p4 of
        Inl e \<Rightarrow> Inl e | Inr (nodes, p5) \<Rightarrow> Inr (blocks, nodes))))))"

text \<open>
  Lines 321-368 together: header, table slice, decompression of the table (with the
  constant \<open>GameMode::Standard\<close> of line 347) and its contents. The position returned is
  that of the file reader behind the table slice.
\<close>

definition read_bundle ::
  "codecs \<Rightarrow> byte list
     \<Rightarrow> (error + (BundleHeader \<times> ArchiveBlockInfo list \<times> ArchiveNode list \<times> nat)) option" where
  "read_bundle cd raw_file =
     (case read_header raw_file of Inl e \<Rightarrow> Some (Inl e) | Inr (h, p) \<Rightarrow>
     (case get_span raw_file p (unat (compressed_blocks_info_size h)) of
        Inl e \<Rightarrow> Some (Inl e) | Inr (raw_block_info, p') \<Rightarrow>
     (case decompress_block cd (compression_type_of (header_flags h AND FLAG_COMPRESSION_MASK))
             raw_block_info (uncompressed_blocks_info_size h) Standard of
        None \<Rightarrow> None | Some (Inl e) \<Rightarrow> Some (Inl e) | Some (Inr (block_info_data, log)) \<Rightarrow>
     (case read_block_info block_info_data of
        Inl e \<Rightarrow> Some (Inl e) | Inr (blocks, nodes) \<Rightarrow> Some (Inr (h, blocks, nodes, p'))))))"

text \<open>
  The loop of lines 389-410, from reader position \<open>pos\<close>, with the payload and the new
  descriptors accumulated so far.
\<close>

fun decompress_blocks ::
  "codecs \<Rightarrow> GameMode \<Rightarrow> byte list \<Rightarrow> ArchiveBlockInfo list \<Rightarrow> nat \<Rightarrow> byte list
     \<Rightarrow> ArchiveBlockInfo list \<Rightarrow> (error + (byte list \<times> ArchiveBlockInfo list)) option" where
  "decompress_blocks cd game_mode raw_file [] pos all_decompressed_data new_blocks =
     Some (Inr (all_decompressed_data, new_blocks))"
| "decompress_blocks cd game_mode raw_file (old_blk # rest) pos all_decompressed_data new_blocks =
     (case get_span raw_file pos (unat (compressed_size old_blk)) of
        Inl e \<Rightarrow> Some (Inl e) | Inr (compressed_bytes, pos') \<Rightarrow>
     (case decompress_block cd (get_compression old_blk) compressed_bytes
             (uncompressed_size old_blk) game_mode of
        None \<Rightarrow> None | Some (Inl e) \<Rightarrow> Some (Inl e) | Some (Inr (raw, log)) \<Rightarrow>
          decompress_blocks cd game_mode raw_file rest pos'
            (all_decompressed_data @ raw)
            (new_blocks @ [\<lparr> uncompressed_size = word_of_nat (length raw),
                              compressed_size = word_of_nat (length raw), flags = 0 \<rparr>])))"

text \<open>Lines 385-410: the optional alignment of the reader, then the loop.\<close>

definition decompress_all ::
  "codecs \<Rightarrow> GameMode \<Rightarrow> byte list \<Rightarrow> BundleHeader \<Rightarrow> ArchiveBlockInfo list \<Rightarrow> nat
     \<Rightarrow> (error + (byte list \<times> ArchiveBlockInfo list)) option" where
  "decompress_all cd game_mode raw_file h blocks pos =
     decompress_blocks cd game_mode raw_file blocks
       (if header_flags h AND FLAG_BLOCK_INFO_NEEDS_ALIGNMENT \<noteq> 0 then align16 pos else pos)
       [] []"

text \<open>Lines 413-451: the new table.\<close>

definition block_bytes :: "ArchiveBlockInfo \<Rightarrow> byte list" where
  "block_bytes b = u32_be (uncompressed_size b) @ u32_be (compressed_size b) @ u16_be (flags b)"

definition node_bytes :: "ArchiveNode \<Rightarrow> byte list" where
  "node_bytes n = s64_be (offset n) @ s64_be (node_size n) @ u32_be (status n) @ path n @ [0]"

definition build_block_info :: "ArchiveBlockInfo list \<Rightarrow> ArchiveNode list \<Rightarrow> byte list" where
  "build_block_info new_blocks nodes =
     replicate 16 0 @
     u32_be (word_of_nat (length new_blocks)) @ concat (map block_bytes new_blocks) @
     u32_be (word_of_nat (length nodes)) @ concat (map node_bytes nodes)"

text \<open>
  Lines 453-484: the output file. \<open>header_start\<close> is what lines 453-456 write,
  \<open>header_end_pos_approx\<close> the value of the variable of that name (lines 458-465).
\<close>

definition header_start :: "BundleHeader \<Rightarrow> byte list" where
  "header_start h =
     write_string UnityFS @ u32_be (version h) @ write_string (unity_ver h) @
     write_string (unity_rev h)"

definition header_end_pos_approx :: "BundleHeader \<Rightarrow> nat" where
  "header_end_pos_approx h =
     (let header_min_size = length (header_start h) + 8 + 4 + 4 + 4
      in if version h \<ge> 7
         then (let rem = header_min_size mod 16
               in if rem \<noteq> 0 then header_min_size + (16 - rem) else header_min_size)
         else header_min_size)"

definition total_file_size :: "BundleHeader \<Rightarrow> byte list \<Rightarrow> byte list \<Rightarrow> 64 word" where
  "total_file_size h new_block_info_blob all_decompressed_data =
     word_of_nat (header_end_pos_approx h + length new_block_info_blob +
                  length all_decompressed_data)"

definition write_header :: "BundleHeader \<Rightarrow> byte list \<Rightarrow> byte list \<Rightarrow> byte list" where
  "write_header h new_block_info_blob all_decompressed_data =
     (let out = header_start h @
                s64_be (total_file_size h new_block_info_blob all_decompressed_data) @
                u32_be (word_of_nat (length new_block_info_blob)) @
                u32_be (word_of_nat (length new_block_info_blob)) @
                u32_be FLAG_BLOCKS_AND_DIR_COMBINED
      in if version h \<ge> 7 then write_align16 out else out)"

definition write_output :: "BundleHeader \<Rightarrow> byte list \<Rightarrow> byte list \<Rightarrow> byte list" where
  "write_output h new_block_info_blob all_decompressed_data =
     write_header h new_block_info_blob all_decompressed_data @
     new_block_info_blob @ all_decompressed_data"

text \<open>
  \<open>process_file\<close> (lines 308-487) as a function from the bytes of the input file to the
  bytes of the output file.
\<close>

definition process_file :: "codecs \<Rightarrow> byte list \<Rightarrow> GameMode \<Rightarrow> (error + byte list) option" where
  "process_file cd raw_file game_mode =
     (case read_bundle cd raw_file of
        None \<Rightarrow> None | Some (Inl e) \<Rightarrow> Some (Inl e) | Some (Inr (h, blocks, nodes, pos)) \<Rightarrow>
     (case decompress_all cd game_mode raw_file h blocks pos of
        None \<Rightarrow> None | Some (Inl e) \<Rightarrow> Some (Inl e)
      | Some (Inr (all_decompressed_data, new_blocks)) \<Rightarrow>
          Some (Inr (write_output h (build_block_info new_blocks nodes) all_decompressed_data))))"

text \<open>The zero bytes that \<open>align(16)\<close> of line 479 appends behind the header fields.\<close>

definition header_padding :: "BundleHeader \<Rightarrow> byte list" where
  "header_padding h =
     (if version h \<ge> 7
      then replicate ((16 - (length (header_start h) + 20) mod 16) mod 16) 0 else [])"

section \<open>A concrete codec family for the examples\<close>

text \<open>
  The examples below need concrete libraries. \<open>stored_codecs\<close> is the family whose
  "compressed" form is the data itself: each function stores the source bytes in the
  destination when they fit and reports failure otherwise. The LZ4 entry returns the number
  of bytes stored, the other two their success constant.
\<close>

definition stored_lz4 :: "byte list \<Rightarrow> int \<Rightarrow> int \<Rightarrow> cint \<times> byte list" where
  "stored_lz4 src compressedSize dstCapacity =
     (if compressedSize < 0 \<or> dstCapacity < compressedSize \<or> 2 ^ 31 \<le> compressedSize
      then (- 1, [])
      else (word_of_int compressedSize, take (nat compressedSize) src))"

definition stored_codecs :: codecs where
  "stored_codecs =
     \<lparr> LZ4_decompress_safe = stored_lz4,
       LzmaUncompress = (\<lambda>src destLen props. if length src \<le> destLen then (0, src) else (1, [])),
       SZ_OK = 0,
       lzham_decompress_memory = (\<lambda>src destLen. if length src \<le> destLen then (3, src) else (4, [])),
       LZHAM_COMP_STATUS_SUCCESS = 3 \<rparr>"

section \<open>Example bundles\<close>

text \<open>
  A bundle of format version 7 whose table is stored (identifier None), with two stored
  blocks of 3 and 4 bytes and one file entry (offset 0, size 7, status 4, path "a"): a header
  of 36 bytes padded to 48, a table of 66 bytes and a payload of 7 bytes.
\<close>

definition example_bundle :: "byte list" where
  "example_bundle =
    [0x55, 0x6E, 0x69, 0x74, 0x79, 0x46, 0x53, 0x00, 0x00, 0x00, 0x00, 0x07, 0x35, 0x00,
     0x78, 0x00, 0x00, 0x00, 0x00, 0x00, 0x00, 0x00, 0x00, 0x79, 0x00, 0x00, 0x00, 0x42,
     0x00, 0x00, 0x00, 0x42, 0x00, 0x00, 0x00, 0x00, 0x00, 0x00, 0x00, 0x00, 0x00, 0x00,
     0x00, 0x00, 0x00, 0x00, 0x00, 0x00, 0x00, 0x00, 0x00, 0x00, 0x00, 0x00, 0x00, 0x00,
     0x00, 0x00, 0x00, 0x00, 0x00, 0x00, 0x00, 0x00, 0x00, 0x00, 0x00, 0x02, 0x00, 0x00,
     0x00, 0x03, 0x00, 0x00, 0x00, 0x03, 0x00, 0x00, 0x00, 0x00, 0x00, 0x04, 0x00, 0x00,
     0x00, 0x04, 0x00, 0x00, 0x00, 0x00, 0x00, 0x01, 0x00, 0x00, 0x00, 0x00, 0x00, 0x00,
     0x00, 0x00, 0x00, 0x00, 0x00, 0x00, 0x00, 0x00, 0x00, 0x07, 0x00, 0x00, 0x00, 0x04,
     0x61, 0x00, 0x01, 0x02, 0x03, 0x04, 0x05, 0x06, 0x07]"

text \<open>Its header, block descriptors and file entries.\<close>

definition example_header :: BundleHeader where
  "example_header =
     \<lparr> version = 7, unity_ver = [0x35], unity_rev = [0x78], bundle_size = 121,
       compressed_blocks_info_size = 66, uncompressed_blocks_info_size = 66, header_flags = 0 \<rparr>"

definition example_blocks :: "ArchiveBlockInfo list" where
  "example_blocks =
     [\<lparr> uncompressed_size = 3, compressed_size = 3, flags = 0 \<rparr>,
      \<lparr> uncompressed_size = 4, compressed_size = 4, flags = 0 \<rparr>]"

definition example_nodes :: "ArchiveNode list" where
  "example_nodes = [\<lparr> offset = 0, node_size = 7, status = 4, path = [0x61] \<rparr>]"

text \<open>The output expected for it: the same bytes with the header flags replaced by \<open>0x40\<close>.\<close>

definition example_output :: "byte list" where
  "example_output =
    [0x55, 0x6E, 0x69, 0x74, 0x79, 0x46, 0x53, 0x00, 0x00, 0x00, 0x00, 0x07, 0x35, 0x00,
     0x78, 0x00, 0x00, 0x00, 0x00, 0x00, 0x00, 0x00, 0x00, 0x79, 0x00, 0x00, 0x00, 0x42,
     0x00, 0x00, 0x00, 0x42, 0x00, 0x00, 0x00, 0x40, 0x00, 0x00, 0x00, 0x00, 0x00, 0x00,
     0x00, 0x00, 0x00, 0x00, 0x00, 0x00, 0x00, 0x00, 0x00, 0x00, 0x00, 0x00, 0x00, 0x00,
     0x00, 0x00, 0x00, 0x00, 0x00, 0x00, 0x00, 0x00, 0x00, 0x00, 0x00, 0x02, 0x00, 0x00,
     0x00, 0x03, 0x00, 0x00, 0x00, 0x03, 0x00, 0x00, 0x00, 0x00, 0x00, 0x04, 0x00, 0x00,
     0x00, 0x04, 0x00, 0x00, 0x00, 0x00, 0x00, 0x01, 0x00, 0x00, 0x00, 0x00, 0x00, 0x00,
     0x00, 0x00, 0x00, 0x00, 0x00, 0x00, 0x00, 0x00, 0x00, 0x07, 0x00, 0x00, 0x00, 0x04,
     0x61, 0x00, 0x01, 0x02, 0x03, 0x04, 0x05, 0x06, 0x07]"

text \<open>
  The same bundle with the table under the proprietary identifier 4 and the second block,
  declared as 5 bytes, under identifier 4 as well, holding the token \<open>0x03\<close> and three
  literal bytes.
\<close>

definition example_lzham_bundle :: "byte list" where
  "example_lzham_bundle =
    [0x55, 0x6E, 0x69, 0x74, 0x79, 0x46, 0x53, 0x00, 0x00, 0x00, 0x00, 0x07, 0x35, 0x00,
     0x78, 0x00, 0x00, 0x00, 0x00, 0x00, 0x00, 0x00, 0x00, 0x79, 0x00, 0x00, 0x00, 0x42,
     0x00, 0x00, 0x00, 0x42, 0x00, 0x00, 0x00, 0x04, 0x00, 0x00, 0x00, 0x00, 0x00, 0x00,
     0x00, 0x00, 0x00, 0x00, 0x00, 0x00, 0x00, 0x00, 0x00, 0x00, 0x00, 0x00, 0x00, 0x00,
     0x00, 0x00, 0x00, 0x00, 0x00, 0x00, 0x00, 0x00, 0x00, 0x00, 0x00, 0x02, 0x00, 0x00,
     0x00, 0x03, 0x00, 0x00, 0x00, 0x03, 0x00, 0x00, 0x00, 0x00, 0x00, 0x05, 0x00, 0x00,
     0x00, 0x04, 0x00, 0x04, 0x00, 0x00, 0x00, 0x01, 0x00, 0x00, 0x00, 0x00, 0x00, 0x00,
     0x00, 0x00, 0x00, 0x00, 0x00, 0x00, 0x00, 0x00, 0x00, 0x07, 0x00, 0x00, 0x00, 0x04,
     0x61, 0x00, 0x01, 0x02, 0x03, 0x03, 0x01, 0x02, 0x03]"

text \<open>Its expected output for the Arknights variant.\<close>

definition example_lzham_output :: "byte list" where
  "example_lzham_output =
    [0x55, 0x6E, 0x69, 0x74, 0x79, 0x46, 0x53, 0x00, 0x00, 0x00, 0x00, 0x07, 0x35, 0x00,
     0x78, 0x00, 0x00, 0x00, 0x00, 0x00, 0x00, 0x00, 0x00, 0x79, 0x00, 0x00, 0x00, 0x42,
     0x00, 0x00, 0x00, 0x42, 0x00, 0x00, 0x00, 0x40, 0x00, 0x00, 0x00, 0x00, 0x00, 0x00,
     0x00, 0x00, 0x00, 0x00, 0x00, 0x00, 0x00, 0x00, 0x00, 0x00, 0x00, 0x00, 0x00, 0x00,
     0x00, 0x00, 0x00, 0x00, 0x00, 0x00, 0x00, 0x00, 0x00, 0x00, 0x00, 0x02, 0x00, 0x00,
     0x00, 0x03, 0x00, 0x00, 0x00, 0x03, 0x00, 0x00, 0x00, 0x00, 0x00, 0x04, 0x00, 0x00,
     0x00, 0x04, 0x00, 0x00, 0x00, 0x00, 0x00, 0x01, 0x00, 0x00, 0x00, 0x00, 0x00, 0x00,
     0x00, 0x00, 0x00, 0x00, 0x00, 0x00, 0x00, 0x00, 0x00, 0x07, 0x00, 0x00, 0x00, 0x04,
     0x61, 0x00, 0x01, 0x02, 0x03, 0x30, 0x01, 0x02, 0x03]"

text \<open>Its header and block descriptors; the file entries are those of the first example.\<close>

definition example_lzham_header :: BundleHeader where
  "example_lzham_header =
     \<lparr> version = 7, unity_ver = [0x35], unity_rev = [0x78], bundle_size = 121,
       compressed_blocks_info_size = 66, uncompressed_blocks_info_size = 66, header_flags = 4 \<rparr>"

definition example_lzham_blocks :: "ArchiveBlockInfo list" where
  "example_lzham_blocks =
     [\<lparr> uncompressed_size = 3, compressed_size = 3, flags = 0 \<rparr>,
      \<lparr> uncompressed_size = 5, compressed_size = 4, flags = 4 \<rparr>]"

text \<open>
  A slice of 16777217 bytes for the pre-transform decoder: a token with literal-length
  nibble \<open>0x0F\<close>, then 16777215 extra-length bytes \<open>0xFF\<close> and the final extra-length byte
  \<open>0xEE\<close>.
\<close>

definition overflow_input :: "byte list" where
  "overflow_input = 0x0F # replicate 16777215 0xFF @ [0xEE]"

section \<open>Properties of the pre-transform decoder\<close>

subsection \<open>Nibble transposition\<close>

lemma nibble_mask: "(0x0F :: byte) = mask 4"
  by (simp add: mask_eq_exp_minus_1)

lemma swap_nibbles_low: "swap_nibbles b AND 0x0F = drop_bit 4 b"
  unfolding swap_nibbles_def nibble_mask
  by (rule bit_word_eqI) (auto simp add: bit_simps dest: bit_imp_le_length)

lemma swap_nibbles_high: "drop_bit 4 (swap_nibbles b) = b AND 0x0F"
  unfolding swap_nibbles_def nibble_mask
  by (rule bit_word_eqI) (auto simp add: bit_simps)

lemma swap_nibbles_twice: "swap_nibbles (swap_nibbles b) = b"
  unfolding swap_nibbles_def nibble_mask
  by (rule bit_word_eqI) (auto simp add: bit_simps)

lemma fst_literal_phase:
  "fst (literal_phase data ip op) = data[ip := swap_nibbles (data ! ip)]"
  by (simp add: literal_phase_def Let_def split: prod.split)

text \<open>
  Claim C4. For every byte, the token rewrite stores the byte with its two nibbles
  transposed: the high half of the stored byte is the low nibble of the token, its low half
  is the high nibble of the token, and transposing twice gives the byte back. The last
  conjunct says that this is the byte the loop body writes at the token position.
\<close>

theorem C4_nibble_transposition:
  "drop_bit 4 (swap_nibbles b) = b AND 0x0F \<and>
   swap_nibbles b AND 0x0F = drop_bit 4 b \<and>
   swap_nibbles (swap_nibbles b) = b \<and>
   fst (literal_phase data ip op) = data[ip := swap_nibbles (data ! ip)]"
  by (simp only: swap_nibbles_low swap_nibbles_high swap_nibbles_twice fst_literal_phase)

subsection \<open>The extra-length rule\<close>

lemma size_t_add_small: "a + b < 2 ^ 64 \<Longrightarrow> size_t_add a b = a + b"
  by (simp add: size_t_add_def)

lemma read_extra_length_from_stop:
  "cursor < length data \<Longrightarrow> data ! cursor \<noteq> 0xFF \<Longrightarrow>
   len' = len + ucast (data ! cursor) \<Longrightarrow> cursor' = cursor + 1 \<Longrightarrow>
   read_extra_length_from data cursor len = (len', cursor')"
  by (subst read_extra_length_from.simps) (simp add: Let_def)

lemma read_extra_length_from_continue:
  "cursor < length data \<Longrightarrow> data ! cursor = 0xFF \<Longrightarrow>
   len' = len + 255 \<Longrightarrow> cursor' = cursor + 1 \<Longrightarrow>
   read_extra_length_from data cursor len = read_extra_length_from data cursor' len'"
  by (subst read_extra_length_from.simps) (simp add: Let_def)

lemma read_extra_length_from_end:
  "length data \<le> cursor \<Longrightarrow> read_extra_length_from data cursor len = (len, cursor)"
  by (subst read_extra_length_from.simps) simp

text \<open>
  Claim C3 (amended). When the loop body reads, at \<open>ip\<close>, a token whose literal-length
  nibble is \<open>0x0F\<close> and the three following bytes are \<open>0xFF, 0xFF, 0x05\<close>, the extra-length
  rule returns 515 and leaves the cursor behind the three bytes, the literal length is
  \<open>15 + 255 + 255 + 5 = 530\<close>, and both the read cursor (from behind the extra-length
  bytes) and the output counter advance by 530.
\<close>

theorem C3_extra_length_scenario:
  assumes "length data < 2 ^ 64" and "ip + 3 < length data"
    and "data ! ip AND 0x0F = 0x0F"
    and "data ! (ip + 1) = 0xFF" and "data ! (ip + 2) = 0xFF" and "data ! (ip + 3) = 0x05"
  shows "read_extra_length (data[ip := swap_nibbles (data ! ip)]) (ip + 1) = (515, ip + 4) \<and>
         literal_phase data ip op =
           (data[ip := swap_nibbles (data ! ip)], size_t_add (ip + 4) 530, size_t_add op 530,
            drop_bit 4 (data ! ip) AND 0x0F, 530)"
proof -
  let ?d = "data[ip := swap_nibbles (data ! ip)]"
  have d1: "?d ! (ip + 1) = 0xFF" and d2: "?d ! (ip + 2) = 0xFF" and d3: "?d ! (ip + 3) = 0x05"
    using assms by simp_all
  have len: "length ?d = length data" by simp
  have "read_extra_length_from ?d (ip + 1) 0 = read_extra_length_from ?d (ip + 2) 255"
    by (rule read_extra_length_from_continue) (use assms(2) d1 in simp_all)
  also have "\<dots> = read_extra_length_from ?d (ip + 3) 510"
    by (rule read_extra_length_from_continue) (use assms(2) d2 in simp_all)
  also have "\<dots> = (515, ip + 4)"
    by (rule read_extra_length_from_stop) (use assms(2) d3 in simp_all)
  finally have rel: "read_extra_length ?d (ip + 1) = (515, ip + 4)"
    by (simp add: read_extra_length_def)
  have ip1: "size_t_add ip 1 = ip + 1"
    using assms(1,2) by (simp add: size_t_add_def)
  have cll: "size_t_add (unat (15 :: byte)) (size_t_of_int (sint (515 :: cint))) = 530"
    by (simp add: size_t_add_def size_t_of_int_def)
  show ?thesis
    using rel ip1 cll assms(3) by (simp add: literal_phase_def Let_def)
qed

theorem C3_extra_length_scenario_witness:
  "literal_phase [0x0F, 0xFF, 0xFF, 0x05] 0 0 = ([0xF0, 0xFF, 0xFF, 0x05], 534, 530, 0, 530)"
  using C3_extra_length_scenario [of "[0x0F, 0xFF, 0xFF, 0x05]" 0 0]
  by (simp add: swap_nibbles_def size_t_add_def)

text \<open>
  The literal length consumed in the scenario of claim C3 is not 524.
\<close>

theorem C3_literal_length_not_524:
  "snd (snd (snd (snd (literal_phase [0x0F, 0xFF, 0xFF, 0x05] 0 0)))) \<noteq> 524"
  by (simp add: literal_phase_def swap_nibbles_def read_extra_length_def
      read_extra_length_from.simps size_t_add_def size_t_of_int_def)


subsection \<open>Where the rewrite loop stops\<close>

lemma lzak_loop_stop_target:
  assumes "ip < length data" and "target \<le> fst (snd (snd (literal_phase data ip op)))"
  shows "lzak_loop target data ip op = Some (Inr (data[ip := swap_nibbles (data ! ip)]))"
proof -
  obtain d1 ip1 op1 m l where lp: "literal_phase data ip op = (d1, ip1, op1, m, l)"
    by (metis prod_cases5)
  have "d1 = data[ip := swap_nibbles (data ! ip)]"
    using fst_literal_phase [of data ip op] lp by simp
  moreover have "target \<le> op1" using assms(2) lp by simp
  ultimately show ?thesis
    using assms(1) lp by (subst lzak_loop.simps) simp
qed

lemma lzak_loop_stop_truncated:
  assumes "ip < length data"
    and "length data < size_t_add (fst (snd (literal_phase data ip op))) 2"
  shows "lzak_loop target data ip op = Some (Inr (data[ip := swap_nibbles (data ! ip)]))"
proof -
  obtain d1 ip1 op1 m l where lp: "literal_phase data ip op = (d1, ip1, op1, m, l)"
    by (metis prod_cases5)
  have d1: "d1 = data[ip := swap_nibbles (data ! ip)]"
    using fst_literal_phase [of data ip op] lp by simp
  have "length d1 < size_t_add ip1 2" using assms(2) lp d1 by simp
  then show ?thesis
    using assms(1) lp d1 by (subst lzak_loop.simps) simp
qed

lemma decompress_lzak_empty: "decompress_lzak cd [] n = Some (Inr ([], []))"
  by (simp add: decompress_lzak_def)

text \<open>
  Where the loop stops. \<open>decompress_lzak\<close> returns the empty output for the empty input,
  whatever the declared size and the library. In an iteration of the loop (so \<open>ip\<close> within
  the buffer), when the output counter after the literals has reached the target the loop
  returns without an error, and so it does when the test \<open>ip + 2 > size\<close> of line 95,
  computed in \<open>size_t\<close>, holds. In both cases the buffer returned is the buffer at the start
  of the iteration with only the token at \<open>ip\<close> rewritten: nothing behind it is processed.
\<close>

lemma lzak_loop_stop_conditions:
  "decompress_lzak cd [] n = Some (Inr ([], [])) \<and>
   (ip < length data \<and> target \<le> fst (snd (snd (literal_phase data ip op))) \<longrightarrow>
      lzak_loop target data ip op = Some (Inr (data[ip := swap_nibbles (data ! ip)]))) \<and>
   (ip < length data \<and> length data < size_t_add (fst (snd (literal_phase data ip op))) 2 \<longrightarrow>
      lzak_loop target data ip op = Some (Inr (data[ip := swap_nibbles (data ! ip)])))"
  using decompress_lzak_empty lzak_loop_stop_target lzak_loop_stop_truncated by blast

lemma literal_phase_plain:
  "data ! ip AND 0x0F \<noteq> 0x0F \<Longrightarrow>
   literal_phase data ip op =
     (data[ip := swap_nibbles (data ! ip)],
      size_t_add (size_t_add ip 1) (size_t_add (unat (data ! ip AND 0x0F)) 0),
      size_t_add op (size_t_add (unat (data ! ip AND 0x0F)) 0),
      drop_bit 4 (data ! ip) AND 0x0F,
      size_t_add (unat (data ! ip AND 0x0F)) 0)"
  by (simp add: literal_phase_def Let_def size_t_of_int_def)

lemma lzak_loop_stop_conditions_example:
  "decompress_lzak stored_codecs [] 7 = Some (Inr ([], [])) \<and>
   lzak_loop 1 [0x12, 0x41, 0x05, 0x00, 0x33] 0 0 = Some (Inr [0x21, 0x41, 0x05, 0x00, 0x33]) \<and>
   lzak_loop 100 [0x12, 0x41, 0x05] 0 0 = Some (Inr [0x21, 0x41, 0x05])"
proof -
  have a: "literal_phase [0x12, 0x41, 0x05, 0x00, 0x33] 0 0 = ([0x21, 0x41, 0x05, 0x00, 0x33], 3, 2, 1, 2)"
    by (simp add: literal_phase_plain swap_nibbles_def size_t_add_def)
  have b: "literal_phase [0x12, 0x41, 0x05] 0 0 = ([0x21, 0x41, 0x05], 3, 2, 1, 2)"
    by (simp add: literal_phase_plain swap_nibbles_def size_t_add_def)
  show ?thesis
    using lzak_loop_stop_conditions [of stored_codecs 7 0 "[0x12, 0x41, 0x05, 0x00, 0x33]" 1 0]
      lzak_loop_stop_conditions [of stored_codecs 7 0 "[0x12, 0x41, 0x05]" 100 0] a b
    by (simp add: swap_nibbles_def size_t_add_def)
qed

text \<open>
  In plain arithmetic: with fewer than 2 bytes left behind the literals the loop stops
  without an error, provided the read cursor is below \<open>2 ^ 64 - 2\<close>, so that \<open>ip + 2\<close> does
  not wrap.
\<close>

lemma lzak_loop_stop_few_bytes:
  assumes "ip < length data"
    and "fst (snd (literal_phase data ip op)) + 2 < 2 ^ 64"
    and "length data < fst (snd (literal_phase data ip op)) + 2"
  shows "lzak_loop target data ip op = Some (Inr (data[ip := swap_nibbles (data ! ip)]))"
proof -
  have "size_t_add (fst (snd (literal_phase data ip op))) 2 =
      fst (snd (literal_phase data ip op)) + 2"
    using assms(2) by (simp add: size_t_add_def)
  then show ?thesis
    using lzak_loop_stop_truncated [OF assms(1), of op target] assms(3) by simp
qed

subsection \<open>Slices of at most 8421504 bytes\<close>

text \<open>
  The sum of the extra-length bytes of a slice of at most 8421504 bytes is at most
  \<open>255 * 8421504 < 2 ^ 31\<close>, so the accumulator of \<open>read_extra_length\<close> does not overflow
  and no cursor wraps. For such a slice the loop returns, from every state, without reading
  outside the buffer.
\<close>

lemma sint_add_byte:
  fixes w :: cint and b :: byte
  assumes "0 \<le> sint w" and "sint w + 255 < 2 ^ 31"
  shows "sint (w + ucast b) = sint w + uint b"
proof -
  have ub: "uint b < 256" using uint_bounded [of b] by simp
  have lo: "- (2 ^ 31) \<le> uint b" by (rule order_trans [of _ 0]) simp_all
  have hi: "uint b < 2 ^ 31" using ub by simp
  have "signed_take_bit 31 (uint b) = uint b"
    by (rule signed_take_bit_int_eq_self [OF lo hi])
  then have "sint (ucast b :: cint) = uint b"
    using ub by (simp add: sint_uint unsigned_ucast_eq take_bit_int_eq_self)
  moreover have "sint (w + ucast b) = signed_take_bit 31 (sint w + sint (ucast b :: cint))"
    by (simp add: sint_word_ariths)
  moreover have "signed_take_bit 31 (sint w + uint b) = sint w + uint b"
  proof (rule signed_take_bit_int_eq_self)
    show "- (2 ^ 31) \<le> sint w + uint b"
      using assms(1) lo by (intro order_trans [OF lo]) simp
    show "sint w + uint b < 2 ^ 31"
      using assms(2) ub by simp
  qed
  ultimately show ?thesis by simp
qed

lemma read_extra_length_from_small:
  "read_extra_length_from data c len = (len', c') \<Longrightarrow> 0 \<le> sint len \<Longrightarrow>
   sint len + 255 * int (length data - c) < 2 ^ 31 \<Longrightarrow>
   0 \<le> sint len' \<and> sint len' \<le> sint len + 255 * int (length data - c) \<and>
   c \<le> c' \<and> (c < length data \<longrightarrow> c' \<le> length data)"
proof (induction data c len rule: read_extra_length_from.induct)
  case (1 data cursor len)
  show ?case
  proof (cases "cursor < length data")
    case False
    then have "len' = len" "c' = cursor"
      using "1.prems"(1) by (simp_all add: read_extra_length_from_end)
    then show ?thesis using "1.prems"(2) False by simp
  next
    case True
    let ?b = "data ! cursor"
    have room: "sint len + 255 < 2 ^ 31"
      using "1.prems"(3) True by (cases "length data - cursor") simp_all
    have s: "sint (len + ucast ?b) = sint len + uint ?b"
      by (rule sint_add_byte [OF "1.prems"(2) room])
    have ub: "0 \<le> uint ?b" "uint ?b \<le> 255"
      using uint_bounded [of ?b] by simp_all
    have step: "255 * int (length data - cursor) = 255 + 255 * int (length data - (cursor + 1))"
      using True by (simp add: algebra_simps)
    show ?thesis
    proof (cases "?b \<noteq> 0xFF")
      case stop: True
      have "len' = len + ucast ?b" "c' = cursor + 1"
        using "1.prems"(1) read_extra_length_from_stop [OF True stop refl refl, of len]
        by simp_all
      then show ?thesis
        using s ub "1.prems"(2) True step by simp
    next
      case cont: False
      then have b: "?b = 0xFF" by simp
      have r: "read_extra_length_from data (cursor + 1) (len + ucast ?b) = (len', c')"
        using "1.prems"(1) read_extra_length_from_continue [OF True b refl refl, of len] b
        by simp
      have ih: "0 \<le> sint len' \<and>
          sint len' \<le> sint (len + ucast ?b) + 255 * int (length data - (cursor + 1)) \<and>
          cursor + 1 \<le> c' \<and> (cursor + 1 < length data \<longrightarrow> c' \<le> length data)"
      proof (rule "1.IH" [OF True refl refl refl _ r])
        show "\<not> ?b \<noteq> 0xFF" using b by simp
        show "0 \<le> sint (len + ucast ?b)" using s ub "1.prems"(2) by simp
        show "sint (len + ucast ?b) + 255 * int (length data - (cursor + 1)) < 2 ^ 31"
          using s ub "1.prems"(3) step by simp
      qed
      have c': "c' \<le> length data"
      proof (cases "cursor + 1 < length data")
        case True
        then show ?thesis using ih by simp
      next
        case False
        then have "c' = cursor + 1"
          using r by (simp add: read_extra_length_from_end)
        then show ?thesis using True by simp
      qed
      show ?thesis using ih s ub step c' by simp
    qed
  qed
qed


lemma read_extra_length_small:
  assumes "length data \<le> 8421504" and "read_extra_length data c = (e, c')"
    and "c \<le> length data"
  shows "0 \<le> sint e \<and> c \<le> c' \<and> c' \<le> length data"
proof (cases "c < length data")
  case True
  have "255 * int (length data - c) \<le> 255 * 8421504"
    using assms(1) by simp
  then have "sint (0 :: cint) + 255 * int (length data - c) < 2 ^ 31"
    by simp
  from read_extra_length_from_small [OF assms(2) [unfolded read_extra_length_def] _ this]
  show ?thesis using True by simp
next
  case False
  then have "e = 0" "c' = c"
    using assms(2) by (simp_all add: read_extra_length_def read_extra_length_from_end)
  then show ?thesis using assms(3) by simp
qed

lemma nibble_bound: "unat (x AND (0x0F :: byte)) \<le> 15"
  using word_and_le1 [of x "0x0F"] by (simp add: word_le_nat_alt)

lemma size_t_of_int_nonneg: "0 \<le> i \<Longrightarrow> i < 2 ^ 64 \<Longrightarrow> size_t_of_int i = nat i"
  by (simp add: size_t_of_int_def)

lemma literal_phase_small:
  assumes "ip < length data" and "length data \<le> 8421504"
    and "literal_phase data ip op = (d1, ip1, op1, m, l)"
  shows "length d1 = length data \<and> ip < ip1 \<and> ip1 < 2 ^ 62"
proof -
  let ?d = "data[ip := swap_nibbles (data ! ip)]"
  let ?lit = "data ! ip AND 0x0F"
  have d1: "d1 = ?d" using fst_literal_phase [of data ip op] assms(3) by simp
  have ip1s: "size_t_add ip 1 = ip + 1"
    using assms(1,2) by (simp add: size_t_add_def)
  have lit: "unat ?lit \<le> 15" by (rule nibble_bound)
  obtain e c' where ex:
    "(if ?lit = 0x0F then read_extra_length ?d (ip + 1) else (0, ip + 1)) = (e, c')"
    by (metis surj_pair)
  have b: "0 \<le> sint e \<and> ip + 1 \<le> c' \<and> c' \<le> length data"
  proof (cases "?lit = 0x0F")
    case True
    then have "read_extra_length ?d (ip + 1) = (e, c')" using ex by simp
    from read_extra_length_small [OF _ this] assms(1,2) show ?thesis by simp
  next
    case False
    then show ?thesis using ex assms(1) by auto
  qed
  have e31: "sint e < 2 ^ 31" using sint_lt [of e] by simp
  then have e64: "sint e < 2 ^ 64" by simp
  have se: "size_t_of_int (sint e) = nat (sint e)"
    using b e64 by (simp add: size_t_of_int_nonneg)
  have ne: "nat (sint e) < 2 ^ 31" using e31 b by (simp add: nat_less_iff)
  have cll: "size_t_add (unat ?lit) (size_t_of_int (sint e)) = unat ?lit + nat (sint e)"
    using lit ne by (simp add: se size_t_add_def)
  have "ip1 = size_t_add c' (unat ?lit + nat (sint e))"
    using assms(3) unfolding literal_phase_def Let_def ip1s ex prod.case cll by auto
  moreover have "c' + (unat ?lit + nat (sint e)) < 2 ^ 62"
    using b lit ne assms(2) by simp
  ultimately have "ip1 = c' + (unat ?lit + nat (sint e))" "ip1 < 2 ^ 62"
    by (simp_all add: size_t_add_def)
  then show ?thesis using d1 b by simp
qed

lemma match_phase_small:
  assumes "ip + 2 \<le> length data" and "length data \<le> 8421504"
  shows "\<exists>d2 ip2 op2. match_phase data ip op m = Inr (d2, ip2, op2) \<and>
           length d2 = length data \<and> ip < ip2"
proof -
  let ?d = "data[ip := data ! (ip + 1), ip + 1 := data ! ip]"
  have a1: "size_t_add ip 1 = ip + 1" and a2: "size_t_add ip 2 = ip + 2"
    using assms by (simp_all add: size_t_add_def)
  obtain e c' where ex:
    "(if m = 0x0F then read_extra_length ?d (ip + 2) else (0, ip + 2)) = (e, c')"
    by (metis surj_pair)
  have b: "ip + 2 \<le> c'"
  proof (cases "m = 0x0F")
    case True
    then have "read_extra_length ?d (ip + 2) = (e, c')" using ex by simp
    from read_extra_length_small [OF _ this] assms show ?thesis by simp
  next
    case False
    then show ?thesis using ex by auto
  qed
  have r: "ip < length data \<and> ip + 1 < length data" using assms(1) by simp
  show ?thesis
    unfolding match_phase_def Let_def a1 a2 ex prod.case using r b by simp
qed

lemma lzak_loop_small:
  "length data \<le> 8421504 \<Longrightarrow>
   \<exists>r. lzak_loop target data ip op = Some (Inr r) \<and> length r = length data"
proof (induction "length data - ip" arbitrary: data ip op rule: less_induct)
  case less
  show ?case
  proof (cases "ip < length data")
    case False
    then show ?thesis by (subst lzak_loop.simps) simp
  next
    case True
    obtain d1 ip1 op1 m l where lp: "literal_phase data ip op = (d1, ip1, op1, m, l)"
      by (metis prod_cases5)
    from literal_phase_small [OF True less.prems lp]
    have s: "length d1 = length data" "ip < ip1" "ip1 < 2 ^ 62" by simp_all
    have a2: "size_t_add ip1 2 = ip1 + 2" using s(3) by (simp add: size_t_add_def)
    show ?thesis
    proof (cases "target \<le> op1 \<or> length d1 < size_t_add ip1 2")
      case stop: True
      then show ?thesis
        using True lp s(1) by (subst lzak_loop.simps) auto
    next
      case go: False
      then have room: "ip1 + 2 \<le> length d1" using a2 by simp
      from match_phase_small [OF room, of op1 m] less.prems s(1)
      obtain d2 ip2 op2 where mp: "match_phase d1 ip1 op1 m = Inr (d2, ip2, op2)"
        and l2: "length d2 = length d1" and i2: "ip1 < ip2"
        by auto
      have "length d2 - ip2 < length data - ip"
        using l2 s(1,2) i2 True by simp
      moreover have "length d2 \<le> 8421504" using l2 s(1) less.prems by simp
      ultimately obtain r where
        "lzak_loop target d2 ip2 op2 = Some (Inr r)" "length r = length d2"
        using less.hyps by blast
      then show ?thesis
        using True lp go mp l2 s(1) by (subst lzak_loop.simps) auto
    qed
  qed
qed

subsection \<open>An extra-length sum beyond the range of \<open>int\<close>\<close>

lemma read_extra_length_from_run:
  "\<forall>i < m. data ! (c + i) = 0xFF \<Longrightarrow> c + m < length data \<Longrightarrow> data ! (c + m) \<noteq> 0xFF \<Longrightarrow>
   read_extra_length_from data c len =
     (len + 255 * word_of_nat m + ucast (data ! (c + m)), c + m + 1)"
proof (induction m arbitrary: c len)
  case 0
  then show ?case
    by (intro read_extra_length_from_stop) simp_all
next
  case (Suc m)
  have f: "data ! c = 0xFF" using Suc.prems(1) by (metis add.right_neutral zero_less_Suc)
  have "read_extra_length_from data c len = read_extra_length_from data (c + 1) (len + 255)"
    by (rule read_extra_length_from_continue) (use Suc.prems f in simp_all)
  also have "\<dots> = (len + 255 + 255 * word_of_nat m + ucast (data ! (c + 1 + m)), c + 1 + m + 1)"
  proof (rule Suc.IH)
    show "\<forall>i<m. data ! (c + 1 + i) = 0xFF"
      using Suc.prems(1) by (metis Suc_less_eq add_Suc_right add_Suc_shift Suc_eq_plus1)
    show "c + 1 + m < length data" using Suc.prems(2) by simp
    show "data ! (c + 1 + m) \<noteq> 0xFF" using Suc.prems(3) by (simp add: add.commute add.left_commute)
  qed
  finally show ?case by (simp add: algebra_simps)
qed

lemma overflow_extra:
  "read_extra_length (overflow_input[0 := swap_nibbles (overflow_input ! 0)]) 1 =
     (4278190063, 16777217)"
proof -
  let ?d = "0xF0 # replicate 16777215 0xFF @ [0xEE :: byte]"
  have d: "overflow_input[0 := swap_nibbles (overflow_input ! 0)] = ?d"
    by (simp add: overflow_input_def swap_nibbles_def)
  have "read_extra_length_from ?d 1 0 =
     (0 + 255 * word_of_nat 16777215 + ucast (?d ! (1 + 16777215)), 1 + 16777215 + 1)"
    by (rule read_extra_length_from_run) (simp_all add: nth_append)
  also have "?d ! (1 + 16777215) = 0xEE"
    by (simp add: nth_append)
  finally show ?thesis
    unfolding d read_extra_length_def by simp
qed


lemma overflow_length: "length overflow_input = 16777217"
  by (simp add: overflow_input_def)

lemma overflow_token: "overflow_input ! 0 = 0x0F"
  by (simp add: overflow_input_def)

lemma overflow_sint: "sint (4278190063 :: cint) = - 16777233"
  by simp

lemma overflow_literal_phase:
  "literal_phase overflow_input 0 0 =
     (overflow_input[0 := swap_nibbles (overflow_input ! 0)],
      18446744073709551615, 18446744073692774398, 0, 18446744073692774398)"
  using overflow_extra
  by (simp add: literal_phase_def overflow_token overflow_sint size_t_add_def size_t_of_int_def
      Let_def)

lemma overflow_loop:
  "lzak_loop (size_t_of_int (- 1)) overflow_input 0 0 = Some (Inl OutOfBounds)"
  by (subst lzak_loop.simps)
    (simp add: overflow_literal_phase overflow_length match_phase_def size_t_add_def
      size_t_of_int_def)

lemma overflow_block:
  "decompress_block cd Lzham overflow_input 0xFFFFFFFF Arknights = Some (Inl OutOfBounds)"
proof -
  have "overflow_input \<noteq> []" by (simp add: overflow_input_def)
  moreover have "int_of_u32 0xFFFFFFFF = - 1" by (simp add: int_of_u32_def)
  ultimately show ?thesis
    using overflow_loop by (simp add: decompress_block_def decompress_lzak_def)
qed

text \<open>
  Claim C10 does not hold for the code. For the slice \<open>overflow_input\<close> and the declared
  size \<open>0xFFFFFFFF\<close> (\<open>- 1\<close> as \<open>int\<close>) the sum of the extra-length bytes, 4278190063,
  exceeds the range of \<open>int\<close>; with the wrapped value \<open>- 16777233\<close> the read cursor becomes
  \<open>2 ^ 64 - 1\<close>, the output counter stays below the target, \<open>ip + 2\<close> wraps to 1 and passes
  the remaining-length check, and the loop reads \<open>fixed_data[ip]\<close> outside the buffer.
\<close>

theorem C10_out_of_bounds_at_overflow:
  "literal_phase overflow_input 0 0 =
     (overflow_input[0 := swap_nibbles (overflow_input ! 0)],
      2 ^ 64 - 1, 2 ^ 64 - 16777218, 0, 2 ^ 64 - 16777218) \<and>
   lzak_loop (size_t_of_int (- 1)) overflow_input 0 0 = Some (Inl OutOfBounds) \<and>
   decompress_block cd Lzham overflow_input 0xFFFFFFFF Arknights = Some (Inl OutOfBounds)"
  using overflow_literal_phase overflow_loop overflow_block by simp

text \<open>
  Claim C6 does not hold for the code in its last part. The empty input is returned at
  once and the loop stops at the target (\<open>lzak_loop_stop_conditions\<close>), but the loop does
  not always stop when fewer than 2 bytes remain for the match-distance field: for the
  slice \<open>overflow_input\<close> and the declared size \<open>0xFFFFFFFF\<close> the read cursor behind the
  literals is \<open>2 ^ 64 - 1\<close>, far behind the end of the buffer, the output counter is below
  the target, and the loop goes on to the match-distance bytes, outside the buffer, instead
  of stopping.
\<close>

theorem C6_truncated_stream_not_stopped:
  "0 < length overflow_input \<and>
   length overflow_input < fst (snd (literal_phase overflow_input 0 0)) + 2 \<and>
   fst (snd (snd (literal_phase overflow_input 0 0))) < size_t_of_int (- 1) \<and>
   lzak_loop (size_t_of_int (- 1)) overflow_input 0 0 = Some (Inl OutOfBounds)"
  using overflow_loop
  by (simp add: overflow_literal_phase overflow_length size_t_of_int_def)

section \<open>Properties of the dispatcher\<close>

text \<open>
  Claim C8. Under the LZMA identifier a slice shorter than 5 bytes gives the error
  "Invalid LZMA data", for every library (the library is not consulted). A slice of at least
  5 bytes is decoded by the library from its first 5 bytes as properties and the rest as the
  stream; a status other than \<open>SZ_OK\<close> is an error, otherwise the destination buffer of the
  declared size is returned.
\<close>

theorem C8_lzma_properties:
  "(length src < 5 \<longrightarrow>
      decompress_block cd Lzma src n mode = Some (Inl (RuntimeError ''Invalid LZMA data''))) \<and>
   (5 \<le> length src \<longrightarrow>
      decompress_block cd Lzma src n mode =
        (case LzmaUncompress cd (drop 5 src) (unat n) (take 5 src) of
           (res, written) \<Rightarrow>
             if res \<noteq> SZ_OK cd then Some (Inl (RuntimeError ''LZMA Decomp failed''))
             else Some (Inr (resize (unat n) written, []))))"
  by (simp add: decompress_block_def)

theorem C8_lzma_properties_witness:
  "decompress_block stored_codecs Lzma [1, 2, 3, 4] 2 Standard =
     Some (Inl (RuntimeError ''Invalid LZMA data'')) \<and>
   decompress_block stored_codecs Lzma [93, 0, 0, 128, 0, 7, 9] 2 Standard =
     Some (Inr ([7, 9], []))"
  using C8_lzma_properties [of "[1, 2, 3, 4]" stored_codecs 2 Standard]
    C8_lzma_properties [of "[93, 0, 0, 128, 0, 7, 9]" stored_codecs 2 Standard]
  by (simp add: stored_codecs_def resize_def)


subsection \<open>Size of the dispatcher's result\<close>

lemma length_resize [simp]: "length (resize n xs) = n"
  by (simp add: resize_def)

lemma decompress_block_None: "decompress_block cd None_t src n mode = Some (Inr (src, []))"
  by (simp add: decompress_block_def)













lemma lzak_loop_example:
  "lzak_loop 5 [0x03, 1, 2, 3] 0 0 = Some (Inr [0x30, 1, 2, 3])"
proof -
  have "literal_phase [0x03, 1, 2, 3] 0 0 = ([0x30, 1, 2, 3], 4, 3, 0, 3)"
    by (simp add: literal_phase_plain swap_nibbles_def size_t_add_def)
  then show ?thesis
    using lzak_loop_stop_truncated [of 0 "[0x03, 1, 2, 3]" 0 5]
    by (simp add: swap_nibbles_def size_t_add_def)
qed

lemma stored_lzak_example:
  "decompress_block stored_codecs Lzham [0x03, 1, 2, 3] 5 Arknights =
     Some (Inr ([0x30, 1, 2, 3], [SizeMismatch 5 4]))"
  using lzak_loop_example
  by (simp add: decompress_block_def decompress_lzak_def int_of_u32_def size_t_of_int_def
      stored_codecs_def stored_lz4_def int_of_size_t_def resize_def)

lemma stored_lz4_example:
  "decompress_block stored_codecs Lz4 [0x03, 1, 2, 3] 5 Arknights =
     Some (Inr ([0x03, 1, 2, 3, 0], []))"
  by (simp add: decompress_block_def int_of_u32_def
      stored_codecs_def stored_lz4_def int_of_size_t_def resize_def)





section \<open>Properties of the cursor codec\<close>

subsection \<open>Reading back what was written\<close>

lemma be_value_u16_be: "be_value (u16_be v) = v"
  unfolding be_value_def u16_be_def
proof (rule bit_word_eqI)
  fix n :: nat assume "n < LENGTH(16)"
  then consider "n < 8" | "8 \<le> n \<and> n < 16" by fastforce
  then show "bit (foldl (\<lambda>acc b. push_bit 8 acc OR ucast b) 0 [ucast (drop_bit 8 v), ucast v :: byte] :: 16 word) n = bit v n"
    by cases (auto simp add: bit_simps)
qed

lemma be_value_u32_be: "be_value (u32_be v) = v"
  unfolding be_value_def u32_be_def
proof (rule bit_word_eqI)
  fix n :: nat assume "n < LENGTH(32)"
  then consider "n < 8" | "8 \<le> n \<and> n < 16" | "16 \<le> n \<and> n < 24" | "24 \<le> n \<and> n < 32" 
    by fastforce
  then show "bit (foldl (\<lambda>acc b. push_bit 8 acc OR ucast b) 0
      [ucast (drop_bit 24 v), ucast (drop_bit 16 v), ucast (drop_bit 8 v), ucast v :: byte] :: 32 word) n = bit v n"
    by cases (auto simp add: bit_simps)
qed

lemma be_value_s64_be: "be_value (s64_be v) = v"
  unfolding be_value_def s64_be_def
proof (rule bit_word_eqI)
  fix n :: nat assume "n < LENGTH(64)"
  then consider "n < 8" | "8 \<le> n \<and> n < 16" | "16 \<le> n \<and> n < 24" | "24 \<le> n \<and> n < 32"
    | "32 \<le> n \<and> n < 40" | "40 \<le> n \<and> n < 48" | "48 \<le> n \<and> n < 56" | "56 \<le> n \<and> n < 64" 
    by fastforce
  then show "bit (foldl (\<lambda>acc b. push_bit 8 acc OR ucast b) 0
      [ucast (drop_bit 56 v), ucast (drop_bit 48 v), ucast (drop_bit 40 v), ucast (drop_bit 32 v),
      ucast (drop_bit 24 v), ucast (drop_bit 16 v), ucast (drop_bit 8 v), ucast v :: byte] :: 64 word) n = bit v n"
    by cases (auto simp add: bit_simps)
qed


lemma length_be [simp]:
  "length (u16_be a) = 2" "length (u32_be b) = 4" "length (s64_be c) = 8"
  by (simp_all add: u16_be_def u32_be_def s64_be_def)

lemma read_u16_append:
  "pos = length pre \<Longrightarrow> read_u16 (pre @ u16_be v @ post) pos = Inr (v, pos + 2)"
  by (simp add: read_u16_def be_value_u16_be)

lemma read_u32_append:
  "pos = length pre \<Longrightarrow> read_u32 (pre @ u32_be v @ post) pos = Inr (v, pos + 4)"
  by (simp add: read_u32_def be_value_u32_be)

lemma read_s64_append:
  "pos = length pre \<Longrightarrow> read_s64 (pre @ s64_be v @ post) pos = Inr (v, pos + 8)"
  by (simp add: read_s64_def be_value_s64_be)

lemma read_string_from_append:
  "0 \<notin> set s \<Longrightarrow>
   read_string_from (pre @ s @ 0 # post) (length pre) acc = (acc @ s, length pre + length s + 1)"
proof (induction s arbitrary: pre acc)
  case Nil
  then show ?case by (subst read_string_from.simps) simp
next
  case (Cons x xs)
  have "read_string_from (pre @ (x # xs) @ 0 # post) (length pre) acc =
        read_string_from ((pre @ [x]) @ xs @ 0 # post) (length (pre @ [x])) (acc @ [x])"
    using Cons.prems by (subst read_string_from.simps) (simp add: nth_append)
  also have "\<dots> = ((acc @ [x]) @ xs, length (pre @ [x]) + length xs + 1)"
    using Cons.prems by (intro Cons.IH) simp
  finally show ?case by simp
qed

lemma read_string_append:
  "0 \<notin> set s \<Longrightarrow> pos = length pre \<Longrightarrow>
   read_string (pre @ s @ 0 # post) pos = (s, pos + length s + 1)"
  using read_string_from_append [of s pre post "[]"] by (simp add: read_string_def)

lemma read_string_from_no_zero:
  "read_string_from data pos acc = (s, p) \<Longrightarrow> 0 \<notin> set acc \<Longrightarrow> 0 \<notin> set s"
proof (induction data pos acc rule: read_string_from.induct)
  case (1 data pos acc)
  show ?case
  proof (cases "pos < length data \<and> data ! pos \<noteq> 0")
    case True
    then have "read_string_from data (pos + 1) (acc @ [data ! pos]) = (s, p)"
      using "1.prems"(1) by (subst (asm) read_string_from.simps) simp
    then show ?thesis using "1.IH" [OF True] "1.prems"(2) True by simp
  next
    case False
    then have "s = acc"
      using "1.prems"(1) by (subst (asm) read_string_from.simps) auto
    then show ?thesis using "1.prems"(2) by simp
  qed
qed

lemma read_string_no_zero: "read_string data pos = (s, p) \<Longrightarrow> 0 \<notin> set s"
  using read_string_from_no_zero [of data pos "[]" s p] by (simp add: read_string_def)

lemma align16_eq: "align16 pos = pos + (16 - pos mod 16) mod 16"
proof (induction pos rule: align16.induct)
  case (1 pos)
  show ?case
  proof (cases "pos mod 16 \<noteq> 0")
    case True
    then have "align16 pos = align16 (pos + 1)"
      by (subst align16.simps) simp
    also have "\<dots> = pos + 1 + (16 - (pos + 1) mod 16) mod 16"
      using "1.IH" [OF True] .
    also have "\<dots> = pos + (16 - pos mod 16) mod 16"
    proof -
      define r where "r = pos mod 16"
      have r: "0 < r" "r < 16" using True by (simp_all add: r_def)
      have s: "(pos + 1) mod 16 = (if r = 15 then 0 else r + 1)"
        by (simp add: mod_Suc r_def)
      show ?thesis
        unfolding s r_def [symmetric] using r by (cases "r = 15") simp_all
    qed
    finally show ?thesis .
  next
    case False
    then show ?thesis by (subst align16.simps) simp
  qed
qed

lemma length_write_align16: "length (write_align16 out) = align16 (length out)"
  by (simp add: write_align16_def align16_eq)

subsection \<open>Reading back a table\<close>

lemma length_block_bytes [simp]: "length (block_bytes b) = 10"
  by (simp add: block_bytes_def)

lemma read_blocks_append:
  "pos = length pre \<Longrightarrow>
   read_blocks (length bs) (pre @ concat (map block_bytes bs) @ post) pos =
     Inr (bs, pos + 10 * length bs)"
proof (induction bs arbitrary: pre pos)
  case Nil
  then show ?case by simp
next
  case (Cons b bs)
  let ?rest = "concat (map block_bytes bs) @ post"
  let ?data = "pre @ concat (map block_bytes (b # bs)) @ post"
  have d1: "?data = pre @ u32_be (uncompressed_size b) @
              (u32_be (compressed_size b) @ u16_be (flags b) @ ?rest)"
    by (simp add: block_bytes_def)
  have d2: "?data = (pre @ u32_be (uncompressed_size b)) @ u32_be (compressed_size b) @
              (u16_be (flags b) @ ?rest)"
    by (simp add: block_bytes_def)
  have d3: "?data = (pre @ u32_be (uncompressed_size b) @ u32_be (compressed_size b)) @
              u16_be (flags b) @ ?rest"
    by (simp add: block_bytes_def)
  have d4: "?data = (pre @ block_bytes b) @ ?rest"
    by (simp add: block_bytes_def)
  have r1: "read_u32 ?data pos = Inr (uncompressed_size b, pos + 4)"
    unfolding d1 by (rule read_u32_append) (simp add: Cons.prems)
  have r2: "read_u32 ?data (pos + 4) = Inr (compressed_size b, pos + 8)"
    using read_u32_append [of "pos + 4" "pre @ u32_be (uncompressed_size b)" "compressed_size b"
        "u16_be (flags b) @ ?rest"] Cons.prems
    unfolding d2 by simp
  have r3: "read_u16 ?data (pos + 8) = Inr (flags b, pos + 10)"
    using read_u16_append [of "pos + 8"
        "pre @ u32_be (uncompressed_size b) @ u32_be (compressed_size b)" "flags b" ?rest]
      Cons.prems
    unfolding d3 by simp
  have r4: "read_blocks (length bs) ?data (pos + 10) = Inr (bs, pos + 10 + 10 * length bs)"
    unfolding d4 by (rule Cons.IH) (simp add: Cons.prems)
  show ?case
    using r1 r2 r3 r4 by (simp del: append_assoc concat.simps list.map)
qed

lemma length_node_bytes [simp]: "length (node_bytes n) = 21 + length (path n)"
  by (simp add: node_bytes_def)

lemma read_nodes_append:
  "pos = length pre \<Longrightarrow> \<forall>n \<in> set ns. 0 \<notin> set (path n) \<Longrightarrow>
   \<exists>p. read_nodes (length ns) (pre @ concat (map node_bytes ns) @ post) pos = Inr (ns, p)"
proof (induction ns arbitrary: pre pos)
  case Nil
  then show ?case by simp
next
  case (Cons n ns)
  let ?rest = "concat (map node_bytes ns) @ post"
  let ?data = "pre @ concat (map node_bytes (n # ns)) @ post"
  have d1: "?data = pre @ s64_be (offset n) @
              (s64_be (node_size n) @ u32_be (status n) @ path n @ 0 # ?rest)"
    by (simp add: node_bytes_def)
  have d2: "?data = (pre @ s64_be (offset n)) @ s64_be (node_size n) @
              (u32_be (status n) @ path n @ 0 # ?rest)"
    by (simp add: node_bytes_def)
  have d3: "?data = (pre @ s64_be (offset n) @ s64_be (node_size n)) @ u32_be (status n) @
              (path n @ 0 # ?rest)"
    by (simp add: node_bytes_def)
  have d4: "?data = (pre @ s64_be (offset n) @ s64_be (node_size n) @ u32_be (status n)) @
              path n @ 0 # ?rest"
    by (simp add: node_bytes_def)
  have d5: "?data = (pre @ node_bytes n) @ ?rest"
    by (simp add: node_bytes_def)
  have r1: "read_s64 ?data pos = Inr (offset n, pos + 8)"
    unfolding d1 by (rule read_s64_append) (simp add: Cons.prems)
  have r2: "read_s64 ?data (pos + 8) = Inr (node_size n, pos + 16)"
    using read_s64_append [of "pos + 8" "pre @ s64_be (offset n)" "node_size n"
        "u32_be (status n) @ path n @ 0 # ?rest"] Cons.prems(1)
    unfolding d2 by simp
  have r3: "read_u32 ?data (pos + 16) = Inr (status n, pos + 20)"
    using read_u32_append [of "pos + 16" "pre @ s64_be (offset n) @ s64_be (node_size n)"
        "status n" "path n @ 0 # ?rest"] Cons.prems(1)
    unfolding d3 by simp
  have r4: "read_string ?data (pos + 20) = (path n, pos + 20 + length (path n) + 1)"
    using read_string_append [of "path n" "pos + 20"
        "pre @ s64_be (offset n) @ s64_be (node_size n) @ u32_be (status n)" ?rest] Cons.prems
    unfolding d4 by simp
  have "\<exists>p. read_nodes (length ns) ((pre @ node_bytes n) @ ?rest)
          (pos + 20 + length (path n) + 1) = Inr (ns, p)"
    by (rule Cons.IH) (use Cons.prems in simp_all)
  then obtain p where r5:
    "read_nodes (length ns) ?data (pos + 20 + length (path n) + 1) = Inr (ns, p)"
    unfolding d5 by blast
  show ?case
    using r1 r2 r3 r4 r5 by (simp del: append_assoc concat.simps list.map)
qed

lemma unat_word_of_nat_32: "k < 2 ^ 32 \<Longrightarrow> unat (word_of_nat k :: 32 word) = k"
  by (simp add: unat_of_nat take_bit_nat_eq_self)

lemma read_block_info_build:
  assumes "length bs < 2 ^ 32" and "length ns < 2 ^ 32"
    and "\<forall>n \<in> set ns. 0 \<notin> set (path n)"
  shows "read_block_info (build_block_info bs ns) = Inr (bs, ns)"
proof -
  let ?nodes = "concat (map node_bytes ns)"
  let ?blocks = "concat (map block_bytes bs)"
  let ?data = "build_block_info bs ns"
  have r0: "read_bytes ?data 0 16 = Inr (replicate 16 0, 16)"
    by (simp add: build_block_info_def read_bytes_def get_span_def)
  have r1: "read_u32 ?data 16 = Inr (word_of_nat (length bs), 20)"
    using read_u32_append [of 16 "replicate 16 0" "word_of_nat (length bs)"
        "?blocks @ u32_be (word_of_nat (length ns)) @ ?nodes"]
    by (simp add: build_block_info_def)
  have r2: "read_blocks (length bs) ?data 20 = Inr (bs, 20 + 10 * length bs)"
    using read_blocks_append [of 20 "replicate 16 0 @ u32_be (word_of_nat (length bs))" bs
        "u32_be (word_of_nat (length ns)) @ ?nodes"]
    by (simp add: build_block_info_def)
  have l: "length ?blocks = 10 * length bs"
    by (induction bs) simp_all
  have r3: "read_u32 ?data (20 + 10 * length bs) = Inr (word_of_nat (length ns), 24 + 10 * length bs)"
    using read_u32_append [of "20 + 10 * length bs"
        "replicate 16 0 @ u32_be (word_of_nat (length bs)) @ ?blocks" "word_of_nat (length ns)"
        ?nodes] l
    by (simp add: build_block_info_def)
  obtain p where r4: "read_nodes (length ns) ?data (24 + 10 * length bs) = Inr (ns, p)"
    using read_nodes_append [of "24 + 10 * length bs"
        "replicate 16 0 @ u32_be (word_of_nat (length bs)) @ ?blocks @
         u32_be (word_of_nat (length ns))" ns "[]"] l assms(3)
    by (auto simp add: build_block_info_def)
  show ?thesis
    using r0 r1 r2 r3 r4 assms(1,2)
    by (simp add: read_block_info_def unat_word_of_nat_32)
qed

subsection \<open>What a successful read guarantees\<close>

lemma read_blocks_length:
  "read_blocks k data pos = Inr (bs, p) \<Longrightarrow> length bs = k"
  by (induction k arbitrary: pos bs p) (auto split: sum.splits prod.splits)

lemma read_nodes_props:
  "read_nodes k data pos = Inr (ns, p) \<Longrightarrow>
   length ns = k \<and> (\<forall>n \<in> set ns. 0 \<notin> set (path n))"
proof (induction k arbitrary: pos ns p)
  case 0
  then show ?case by simp
next
  case (Suc k)
  from Suc.prems obtain off sz st p3 pa p4 ns' where
    s: "read_string data p3 = (pa, p4)" and
    r: "read_nodes k data p4 = Inr (ns', p)" and
    n: "ns = \<lparr> offset = off, node_size = sz, status = st, path = pa \<rparr> # ns'"
    by (auto split: sum.splits prod.splits)
  from Suc.IH [OF r] read_string_no_zero [OF s] n show ?case by simp
qed

lemma read_block_info_props:
  assumes "read_block_info data = Inr (bs, ns)"
  shows "length bs < 2 ^ 32 \<and> length ns < 2 ^ 32 \<and> (\<forall>n \<in> set ns. 0 \<notin> set (path n))"
proof -
  from assms obtain bc :: "32 word" and nc :: "32 word" and p2 p3 p4 p5 where
    b: "read_blocks (unat bc) data p2 = Inr (bs, p3)" and
    n: "read_nodes (unat nc) data p4 = Inr (ns, p5)"
    by (auto simp: read_block_info_def split: sum.splits prod.splits)
  have "unat bc < 2 ^ 32" "unat nc < 2 ^ 32"
    using unsigned_less [of bc] unsigned_less [of nc] by simp_all
  then show ?thesis
    using read_blocks_length [OF b] read_nodes_props [OF n] by simp
qed

lemma read_header_props:
  assumes "read_header raw = Inr (h, p)"
  shows "0 \<notin> set (unity_ver h) \<and> 0 \<notin> set (unity_rev h)"
proof -
  from assms obtain p2 p3 p4 where
    "read_string raw p2 = (unity_ver h, p3)" "read_string raw p3 = (unity_rev h, p4)"
    by (auto simp: read_header_def split: sum.splits prod.splits if_splits)
  then show ?thesis using read_string_no_zero by blast
qed

lemma decompress_lzak_length:
  "decompress_lzak cd src u = Some (Inr (out, log)) \<Longrightarrow> u < 2 ^ 31 \<Longrightarrow> length out < 2 ^ 32"
proof -
  assume a: "decompress_lzak cd src u = Some (Inr (out, log))" and u: "u < 2 ^ 31"
  have s: "nat (sint r) < 2 ^ 32" for r :: "32 word"
    using sint_lt [of r] by (simp add: nat_less_iff)
  have "nat u < 2 ^ 32" using u by (simp add: nat_less_iff)
  then show ?thesis
    using a s
    by (auto simp: decompress_lzak_def Let_def
        split: if_splits option.splits sum.splits prod.splits)
qed

lemma decompress_block_length:
  assumes "decompress_block cd t src n mode = Some (Inr (out, log))" and "length src < 2 ^ 32"
  shows "length out < 2 ^ 32"
proof -
  have n: "unat n < 2 ^ 32" using unsigned_less [of n] by simp
  have i: "int_of_u32 n < 2 ^ 31" using sint_lt [of n] by (simp add: int_of_u32_def)
  show ?thesis
  proof (cases "t = Lzham \<and> mode = Arknights")
    case True
    then have "decompress_lzak cd src (int_of_u32 n) = Some (Inr (out, log))"
      using assms(1) by (simp add: decompress_block_def)
    from decompress_lzak_length [OF this i] show ?thesis .
  next
    case False
    then show ?thesis
      using assms n
      by (cases t) (auto simp: decompress_block_def split: if_splits prod.splits)
  qed
qed

lemma get_span_length: "get_span data pos k = Inr (s, p) \<Longrightarrow> length s = k"
  by (auto simp: get_span_def split: if_splits)

lemma decompress_blocks_props:
  "decompress_blocks cd m raw blocks pos all new = Some (Inr (payload, nbs)) \<Longrightarrow>
   \<exists>added. nbs = new @ added \<and> length added = length blocks \<and>
     (\<forall>b \<in> set added. flags b = 0 \<and> uncompressed_size b = compressed_size b) \<and>
     length payload = length all + sum_list (map (\<lambda>b. unat (uncompressed_size b)) added)"
proof (induction blocks arbitrary: pos all new)
  case Nil
  then show ?case by simp
next
  case (Cons old_blk rest)
  from Cons.prems obtain compressed_bytes pos' rawb log where
    g: "get_span raw pos (unat (compressed_size old_blk)) = Inr (compressed_bytes, pos')" and
    d: "decompress_block cd (get_compression old_blk) compressed_bytes
          (uncompressed_size old_blk) m = Some (Inr (rawb, log))" and
    r: "decompress_blocks cd m raw rest pos' (all @ rawb)
          (new @ [\<lparr> uncompressed_size = word_of_nat (length rawb),
                     compressed_size = word_of_nat (length rawb), flags = 0 \<rparr>])
        = Some (Inr (payload, nbs))"
    by (auto split: sum.splits option.splits prod.splits)
  have "length compressed_bytes < 2 ^ 32"
    using get_span_length [OF g] unsigned_less [of "compressed_size old_blk"] by simp
  from decompress_block_length [OF d this] have l: "length rawb < 2 ^ 32" .
  from Cons.IH [OF r] obtain added where
    a: "nbs = (new @ [\<lparr> uncompressed_size = word_of_nat (length rawb),
                     compressed_size = word_of_nat (length rawb), flags = 0 \<rparr>]) @ added"
       "length added = length rest"
       "\<forall>b \<in> set added. flags b = 0 \<and> uncompressed_size b = compressed_size b"
       "length payload = length (all @ rawb) + sum_list (map (\<lambda>b. unat (uncompressed_size b)) added)"
    by blast
  let ?nb = "\<lparr> uncompressed_size = word_of_nat (length rawb) :: 32 word,
                     compressed_size = word_of_nat (length rawb), flags = 0 \<rparr>"
  show ?case
    using a l by (intro exI [of _ "?nb # added"]) (simp add: unat_word_of_nat_32)
qed

section \<open>Properties of the container codec\<close>

subsection \<open>The header of the output\<close>

lemma write_header_eq:
  "write_header h blob payload =
     header_start h @ s64_be (total_file_size h blob payload) @
     u32_be (word_of_nat (length blob)) @ u32_be (word_of_nat (length blob)) @
     u32_be FLAG_BLOCKS_AND_DIR_COMBINED @ header_padding h"
  by (simp add: write_header_def write_align16_def header_padding_def Let_def)

lemma round_up_16:
  "(if k mod 16 \<noteq> 0 then k + (16 - k mod 16) else k) = k + (16 - k mod 16) mod 16"
  for k :: nat
  by simp

lemma header_end_pos_approx_eq:
  "header_end_pos_approx h =
     (if version h \<ge> 7 then align16 (length (header_start h) + 20)
      else length (header_start h) + 20)"
proof -
  define k where "k = length (header_start h) + 20"
  have k: "length (header_start h) + 8 + 4 + 4 + 4 = k" by (simp add: k_def)
  show ?thesis
    unfolding header_end_pos_approx_def k Let_def k_def [symmetric] align16_eq
    using round_up_16 [of k] by simp
qed

lemma length_write_header:
  "length (write_header h blob payload) = header_end_pos_approx h"
  by (simp add: write_header_eq header_end_pos_approx_eq header_padding_def align16_eq)

lemma length_write_output:
  "length (write_output h blob payload) =
     header_end_pos_approx h + length blob + length payload"
  by (simp add: write_output_def length_write_header)

lemma length_header_start:
  "length (header_start h) = 14 + length (unity_ver h) + length (unity_rev h)"
  by (simp add: header_start_def write_string_def UnityFS_def)

lemma read_header_write_output:
  assumes "0 \<notin> set (unity_ver h)" and "0 \<notin> set (unity_rev h)"
  shows "read_header (write_output h blob payload) =
           Inr (h\<lparr> bundle_size := total_file_size h blob payload,
                   compressed_blocks_info_size := word_of_nat (length blob),
                   uncompressed_blocks_info_size := word_of_nat (length blob),
                   header_flags := FLAG_BLOCKS_AND_DIR_COMBINED \<rparr>,
                header_end_pos_approx h)"
proof -
  let ?uv = "unity_ver h" and ?ur = "unity_rev h"
  let ?t = "total_file_size h blob payload"
  let ?n = "word_of_nat (length blob) :: 32 word"
  let ?tail = "header_padding h @ blob @ payload"
  let ?data = "write_output h blob payload"
  let ?a = "length ?uv" and ?b = "length ?ur"
  have d0: "?data = [] @ UnityFS @ 0 # (u32_be (version h) @ ?uv @ 0 # ?ur @ 0 # s64_be ?t @
      u32_be ?n @ u32_be ?n @ u32_be FLAG_BLOCKS_AND_DIR_COMBINED @ ?tail)"
    by (simp add: write_output_def write_header_eq header_start_def write_string_def)
  have d1: "?data = (UnityFS @ [0]) @ u32_be (version h) @ (?uv @ 0 # ?ur @ 0 # s64_be ?t @
      u32_be ?n @ u32_be ?n @ u32_be FLAG_BLOCKS_AND_DIR_COMBINED @ ?tail)"
    unfolding d0 by simp
  have d2: "?data = (UnityFS @ [0] @ u32_be (version h)) @ ?uv @ 0 # (?ur @ 0 # s64_be ?t @
      u32_be ?n @ u32_be ?n @ u32_be FLAG_BLOCKS_AND_DIR_COMBINED @ ?tail)"
    unfolding d0 by simp
  have d3: "?data = (UnityFS @ [0] @ u32_be (version h) @ ?uv @ [0]) @ ?ur @ 0 # (s64_be ?t @
      u32_be ?n @ u32_be ?n @ u32_be FLAG_BLOCKS_AND_DIR_COMBINED @ ?tail)"
    unfolding d0 by simp
  have d4: "?data = (UnityFS @ [0] @ u32_be (version h) @ ?uv @ [0] @ ?ur @ [0]) @ s64_be ?t @
      (u32_be ?n @ u32_be ?n @ u32_be FLAG_BLOCKS_AND_DIR_COMBINED @ ?tail)"
    unfolding d0 by simp
  have d5: "?data = (UnityFS @ [0] @ u32_be (version h) @ ?uv @ [0] @ ?ur @ [0] @ s64_be ?t) @
      u32_be ?n @ (u32_be ?n @ u32_be FLAG_BLOCKS_AND_DIR_COMBINED @ ?tail)"
    unfolding d0 by simp
  have d6: "?data = (UnityFS @ [0] @ u32_be (version h) @ ?uv @ [0] @ ?ur @ [0] @ s64_be ?t @
      u32_be ?n) @ u32_be ?n @ (u32_be FLAG_BLOCKS_AND_DIR_COMBINED @ ?tail)"
    unfolding d0 by simp
  have d7: "?data = (UnityFS @ [0] @ u32_be (version h) @ ?uv @ [0] @ ?ur @ [0] @ s64_be ?t @
      u32_be ?n @ u32_be ?n) @ u32_be FLAG_BLOCKS_AND_DIR_COMBINED @ ?tail"
    unfolding d0 by simp
  have z: "0 \<notin> set UnityFS" by (simp add: UnityFS_def)
  have lu: "length UnityFS = 7" by (simp add: UnityFS_def)
  have r0: "read_string ?data 0 = (UnityFS, 8)"
    unfolding d0 using read_string_append [OF z, of 0 "[]"] lu by simp
  have r1: "read_u32 ?data 8 = Inr (version h, 12)"
    unfolding d1 using read_u32_append [of 8 "UnityFS @ [0]" "version h"] lu by simp
  have r2: "read_string ?data 12 = (?uv, 13 + ?a)"
    unfolding d2
    using read_string_append [OF assms(1), of 12 "UnityFS @ [0] @ u32_be (version h)"] lu
    by simp
  have r3: "read_string ?data (13 + ?a) = (?ur, 14 + ?a + ?b)"
    unfolding d3
    using read_string_append [OF assms(2), of "13 + ?a"
        "UnityFS @ [0] @ u32_be (version h) @ ?uv @ [0]"] lu
    by simp
  have r4: "read_s64 ?data (14 + ?a + ?b) = Inr (?t, 22 + ?a + ?b)"
    unfolding d4
    using read_s64_append [of "14 + ?a + ?b"
        "UnityFS @ [0] @ u32_be (version h) @ ?uv @ [0] @ ?ur @ [0]" ?t] lu
    by simp
  have r5: "read_u32 ?data (22 + ?a + ?b) = Inr (?n, 26 + ?a + ?b)"
    unfolding d5
    using read_u32_append [of "22 + ?a + ?b"
        "UnityFS @ [0] @ u32_be (version h) @ ?uv @ [0] @ ?ur @ [0] @ s64_be ?t" ?n] lu
    by simp
  have r6: "read_u32 ?data (26 + ?a + ?b) = Inr (?n, 30 + ?a + ?b)"
    unfolding d6
    using read_u32_append [of "26 + ?a + ?b"
        "UnityFS @ [0] @ u32_be (version h) @ ?uv @ [0] @ ?ur @ [0] @ s64_be ?t @ u32_be ?n" ?n] lu
    by simp
  have r7: "read_u32 ?data (30 + ?a + ?b) = Inr (FLAG_BLOCKS_AND_DIR_COMBINED, 34 + ?a + ?b)"
    unfolding d7
    using read_u32_append [of "30 + ?a + ?b"
        "UnityFS @ [0] @ u32_be (version h) @ ?uv @ [0] @ ?ur @ [0] @ s64_be ?t @ u32_be ?n @
         u32_be ?n" FLAG_BLOCKS_AND_DIR_COMBINED] lu
    by simp
  have e: "header_end_pos_approx h = (if version h \<ge> 7 then align16 (34 + ?a + ?b) else 34 + ?a + ?b)"
    by (simp add: header_end_pos_approx_eq length_header_start add.assoc)
  show ?thesis
    unfolding read_header_def
    by (simp only: r0 r1 r2 r3 r4 r5 r6 r7 e prod.case sum.case) simp
qed

subsection \<open>The stages of a conversion\<close>

lemma read_block_info_build_append:
  assumes "length bs < 2 ^ 32" and "length ns < 2 ^ 32"
    and "\<forall>n \<in> set ns. 0 \<notin> set (path n)"
  shows "read_block_info (build_block_info bs ns @ post) = Inr (bs, ns)"
proof -
  let ?nodes = "concat (map node_bytes ns)"
  let ?blocks = "concat (map block_bytes bs)"
  let ?data = "build_block_info bs ns @ post"
  have r0: "read_bytes ?data 0 16 = Inr (replicate 16 0, 16)"
    by (simp add: build_block_info_def read_bytes_def get_span_def)
  have r1: "read_u32 ?data 16 = Inr (word_of_nat (length bs), 20)"
    using read_u32_append [of 16 "replicate 16 0" "word_of_nat (length bs)"
        "?blocks @ u32_be (word_of_nat (length ns)) @ ?nodes @ post"]
    by (simp add: build_block_info_def)
  have r2: "read_blocks (length bs) ?data 20 = Inr (bs, 20 + 10 * length bs)"
    using read_blocks_append [of 20 "replicate 16 0 @ u32_be (word_of_nat (length bs))" bs
        "u32_be (word_of_nat (length ns)) @ ?nodes @ post"]
    by (simp add: build_block_info_def)
  have l: "length ?blocks = 10 * length bs"
    by (induction bs) simp_all
  have r3: "read_u32 ?data (20 + 10 * length bs) = Inr (word_of_nat (length ns), 24 + 10 * length bs)"
    using read_u32_append [of "20 + 10 * length bs"
        "replicate 16 0 @ u32_be (word_of_nat (length bs)) @ ?blocks" "word_of_nat (length ns)"
        "?nodes @ post"] l
    by (simp add: build_block_info_def)
  obtain p where r4: "read_nodes (length ns) ?data (24 + 10 * length bs) = Inr (ns, p)"
    using read_nodes_append [of "24 + 10 * length bs"
        "replicate 16 0 @ u32_be (word_of_nat (length bs)) @ ?blocks @
         u32_be (word_of_nat (length ns))" ns post] l assms(3)
    by (auto simp add: build_block_info_def)
  show ?thesis
    using r0 r1 r2 r3 r4 assms(1,2)
    by (simp add: read_block_info_def unat_word_of_nat_32)
qed

lemma process_file_success:
  assumes "process_file cd raw mode = Some (Inr out)"
  obtains h blocks nodes pos payload nbs where
    "read_bundle cd raw = Some (Inr (h, blocks, nodes, pos))"
    "decompress_all cd mode raw h blocks pos = Some (Inr (payload, nbs))"
    "out = write_output h (build_block_info nbs nodes) payload"
  using assms
  by (auto simp: process_file_def split: option.splits sum.splits prod.splits)

lemma read_bundle_success:
  assumes "read_bundle cd raw = Some (Inr (h, blocks, nodes, pos))"
  shows "0 \<notin> set (unity_ver h)" "0 \<notin> set (unity_rev h)"
    "length blocks < 2 ^ 32" "length nodes < 2 ^ 32" "\<forall>n \<in> set nodes. 0 \<notin> set (path n)"
proof -
  from assms obtain p table where
    h: "read_header raw = Inr (h, p)" and t: "read_block_info table = Inr (blocks, nodes)"
    by (auto simp: read_bundle_def split: option.splits sum.splits prod.splits)
  show "0 \<notin> set (unity_ver h)" "0 \<notin> set (unity_rev h)"
    using read_header_props [OF h] by simp_all
  show "length blocks < 2 ^ 32" "length nodes < 2 ^ 32" "\<forall>n \<in> set nodes. 0 \<notin> set (path n)"
    using read_block_info_props [OF t] by simp_all
qed

lemma decompress_all_props:
  assumes "decompress_all cd mode raw h blocks pos = Some (Inr (payload, nbs))"
  shows "length nbs = length blocks"
    "\<forall>b \<in> set nbs. flags b = 0 \<and> uncompressed_size b = compressed_size b"
    "sum_list (map (\<lambda>b. unat (uncompressed_size b)) nbs) = length payload"
  using decompress_blocks_props [OF assms [unfolded decompress_all_def]] by auto

lemma drop_write_output:
  "drop (header_end_pos_approx h) (write_output h blob payload) = blob @ payload"
  using length_write_header [of h blob payload] by (simp add: write_output_def)

lemma read_bundle_write_output:
  assumes "0 \<notin> set (unity_ver h)" and "0 \<notin> set (unity_rev h)"
    and "length bs < 2 ^ 32" and "length ns < 2 ^ 32" and "\<forall>n \<in> set ns. 0 \<notin> set (path n)"
    and "length (build_block_info bs ns) < 2 ^ 32"
  shows "read_bundle cd (write_output h (build_block_info bs ns) payload) =
           Some (Inr (h\<lparr> bundle_size := total_file_size h (build_block_info bs ns) payload,
                         compressed_blocks_info_size := word_of_nat (length (build_block_info bs ns)),
                         uncompressed_blocks_info_size := word_of_nat (length (build_block_info bs ns)),
                         header_flags := FLAG_BLOCKS_AND_DIR_COMBINED \<rparr>,
                      bs, ns, header_end_pos_approx h + length (build_block_info bs ns)))"
proof -
  let ?blob = "build_block_info bs ns"
  let ?out = "write_output h ?blob payload"
  have c: "compression_type_of (FLAG_BLOCKS_AND_DIR_COMBINED AND FLAG_COMPRESSION_MASK) = None_t"
    by (simp add: compression_type_of_def FLAG_BLOCKS_AND_DIR_COMBINED_def
        FLAG_COMPRESSION_MASK_def)
  have g: "get_span ?out (header_end_pos_approx h) (length ?blob) =
             Inr (?blob, header_end_pos_approx h + length ?blob)"
    using drop_write_output [of h ?blob payload] length_write_output [of h ?blob payload]
    by (simp add: get_span_def)
  show ?thesis
    using read_header_write_output [OF assms(1,2), of ?blob payload]
      read_block_info_build [OF assms(3,4,5)] g c assms(6)
    by (simp add: read_bundle_def unat_word_of_nat_32 decompress_block_None)
qed

subsection \<open>The example bundle\<close>

lemmas reader_defs =
  read_string_def read_string_from.simps read_u16_def read_u32_def read_s64_def be_value_def
  get_span_def read_bytes_def

lemma example_read_header: "read_header example_bundle = Inr (example_header, 48)"
  by (simp add: read_header_def example_bundle_def example_header_def reader_defs UnityFS_def
      align16_eq)


lemma replicate_16: "replicate 16 x = [x, x, x, x, x, x, x, x, x, x, x, x, x, x, x, x]"
  by (simp add: eval_nat_numeral)

lemma replicate_12: "replicate 12 x = [x, x, x, x, x, x, x, x, x, x, x, x]"
  by (simp add: eval_nat_numeral)

lemmas writer_defs =
  build_block_info_def block_bytes_def node_bytes_def u16_be_def u32_be_def s64_be_def
  replicate_16 replicate_12

lemma example_table:
  "take 66 (drop 48 example_bundle) = build_block_info example_blocks example_nodes"
  by (simp add: example_bundle_def example_blocks_def example_nodes_def writer_defs)

lemma example_read_block_info:
  "read_block_info (build_block_info example_blocks example_nodes) =
     Inr (example_blocks, example_nodes)"
  by (rule read_block_info_build) (simp_all add: example_blocks_def example_nodes_def)

lemma example_read_bundle:
  "read_bundle stored_codecs example_bundle =
     Some (Inr (example_header, example_blocks, example_nodes, 114))"
proof -
  have l: "length example_bundle = 121" by (simp add: example_bundle_def)
  have c: "compression_type_of (header_flags example_header AND FLAG_COMPRESSION_MASK) = None_t"
    by (simp add: example_header_def compression_type_of_def)
  have g: "get_span example_bundle 48 (unat (compressed_blocks_info_size example_header)) =
             Inr (build_block_info example_blocks example_nodes, 114)"
    using example_table l by (simp add: get_span_def example_header_def)
  show ?thesis
    by (simp add: read_bundle_def example_read_header g c decompress_block_None
        example_read_block_info)
qed

lemma example_decompress_all:
  "decompress_all stored_codecs mode example_bundle example_header example_blocks 114 =
     Some (Inr ([1, 2, 3, 4, 5, 6, 7], example_blocks))"
proof -
  have c: "get_compression \<lparr> uncompressed_size = u, compressed_size = c, flags = 0 \<rparr> = None_t"
    for u c
    by (simp add: get_compression_def compression_type_of_def)
  have g1: "get_span example_bundle 114 3 = Inr ([1, 2, 3], 117)"
    by (simp add: get_span_def example_bundle_def)
  have g2: "get_span example_bundle 117 4 = Inr ([4, 5, 6, 7], 121)"
    by (simp add: get_span_def example_bundle_def)
  show ?thesis
    by (simp add: decompress_all_def example_header_def example_blocks_def
        FLAG_BLOCK_INFO_NEEDS_ALIGNMENT_def c g1 g2 decompress_block_None)
qed

lemma example_write_output:
  "write_output example_header (build_block_info example_blocks example_nodes)
     [1, 2, 3, 4, 5, 6, 7] = example_output"
  by (simp add: write_output_def write_header_def header_start_def write_string_def
      write_align16_def total_file_size_def header_end_pos_approx_def UnityFS_def
      FLAG_BLOCKS_AND_DIR_COMBINED_def example_header_def example_blocks_def example_nodes_def
      example_output_def writer_defs Let_def)

lemma example_process_file:
  "process_file stored_codecs example_bundle mode = Some (Inr example_output)"
  by (simp add: process_file_def example_read_bundle example_decompress_all
      example_write_output)

lemma align16_div: "align16 k = (k + 15) div 16 * 16"
proof -
  define r where "r = k mod 16"
  define q where "q = k div 16"
  have k: "k = 16 * q + r" and r: "r < 16"
    by (simp_all add: r_def q_def)
  have "(16 * q + r + 15) div 16 * 16 = 16 * q + r + (16 - r) mod 16"
  proof (cases "r = 0")
    case True
    then show ?thesis by simp
  next
    case False
    then have "(16 * q + r + 15) div 16 = q + 1"
      using r by (simp add: div_eq_dividend_iff) 
    then show ?thesis using False r by simp
  qed
  then show ?thesis
    unfolding align16_eq using k r by (simp add: r_def [symmetric])
qed


lemma header_end_pos_approx_div:
  "header_end_pos_approx h =
     (if version h \<ge> 7 then (length (header_start h) + 20 + 15) div 16 * 16
      else length (header_start h) + 20)"
  by (simp add: header_end_pos_approx_eq align16_div)

lemma take_write_output:
  "take (length (header_start h) + 8) (write_output h blob payload) =
     header_start h @ s64_be (total_file_size h blob payload)"
  by (simp add: write_output_def write_header_eq)

lemma drop_write_output_payload:
  "drop (header_end_pos_approx h + length blob) (write_output h blob payload) = payload"
  using length_write_header [of h blob payload] by (simp add: write_output_def)

lemma build_block_info_nodes:
  "build_block_info bs ns =
     (replicate 16 0 @ u32_be (word_of_nat (length bs)) @ concat (map block_bytes bs)) @
     u32_be (word_of_nat (length ns)) @ concat (map node_bytes ns)"
  by (simp add: build_block_info_def)

lemma length_blocks_part:
  "length (replicate 16 (0 :: byte) @ u32_be (word_of_nat (length bs)) @
           concat (map block_bytes bs)) = 20 + 10 * length bs"
  by (induction bs) simp_all

lemma example_header_end: "header_end_pos_approx example_header = 48"
  by (simp add: header_end_pos_approx_def header_start_def write_string_def UnityFS_def
      example_header_def Let_def)

lemma example_header_start_length: "length (header_start example_header) = 16"
  by (simp add: header_start_def write_string_def UnityFS_def example_header_def)

lemma example_output_tail:
  "drop 48 example_output =
     build_block_info example_blocks example_nodes @ [1, 2, 3, 4, 5, 6, 7]"
  by (simp add: example_output_def example_blocks_def example_nodes_def writer_defs)

lemma example_output_table:
  "read_block_info (drop 48 example_output) = Inr (example_blocks, example_nodes)"
  unfolding example_output_tail
  by (rule read_block_info_build_append) (simp_all add: example_blocks_def example_nodes_def)

subsection \<open>The claims about the rewritten bundle\<close>

lemma get_span_value:
  "get_span data pos k = Inr (s, p) \<Longrightarrow> s = take k (drop pos data) \<and> p = pos + k"
  by (auto simp: get_span_def split: if_splits)

lemma decompress_blocks_results:
  "decompress_blocks cd m raw blocks pos all new = Some (Inr (payload, nbs)) \<Longrightarrow>
   \<exists>raws. length raws = length blocks \<and> payload = all @ concat raws \<and>
     nbs = new @ map (\<lambda>r. \<lparr> uncompressed_size = word_of_nat (length r),
                              compressed_size = word_of_nat (length r), flags = 0 \<rparr>) raws \<and>
     (\<forall>r \<in> set raws. length r < 2 ^ 32) \<and>
     (\<forall>i < length blocks. \<exists>log.
        decompress_block cd (get_compression (blocks ! i))
          (take (unat (compressed_size (blocks ! i)))
             (drop (pos + sum_list (map (\<lambda>b. unat (compressed_size b)) (take i blocks))) raw))
          (uncompressed_size (blocks ! i)) m = Some (Inr (raws ! i, log)))"
proof (induction blocks arbitrary: pos all new)
  case Nil
  then show ?case by simp
next
  case (Cons old_blk rest)
  let ?k = "unat (compressed_size old_blk)"
  from Cons.prems obtain compressed_bytes pos' rawb log where
    g: "get_span raw pos ?k = Inr (compressed_bytes, pos')" and
    d: "decompress_block cd (get_compression old_blk) compressed_bytes
          (uncompressed_size old_blk) m = Some (Inr (rawb, log))" and
    r: "decompress_blocks cd m raw rest pos' (all @ rawb)
          (new @ [\<lparr> uncompressed_size = word_of_nat (length rawb),
                     compressed_size = word_of_nat (length rawb), flags = 0 \<rparr>])
        = Some (Inr (payload, nbs))"
    by (auto split: sum.splits option.splits prod.splits)
  from get_span_value [OF g] have cb: "compressed_bytes = take ?k (drop pos raw)"
    and p': "pos' = pos + ?k" by simp_all
  have "length compressed_bytes < 2 ^ 32"
    using get_span_length [OF g] unsigned_less [of "compressed_size old_blk"] by simp
  from decompress_block_length [OF d this] have l: "length rawb < 2 ^ 32" .
  from Cons.IH [OF r] obtain raws where
    a: "length raws = length rest"
       "payload = (all @ rawb) @ concat raws"
       "nbs = (new @ [\<lparr> uncompressed_size = word_of_nat (length rawb),
                     compressed_size = word_of_nat (length rawb), flags = 0 \<rparr>]) @
              map (\<lambda>r. \<lparr> uncompressed_size = word_of_nat (length r),
                              compressed_size = word_of_nat (length r), flags = 0 \<rparr>) raws"
       "\<forall>r \<in> set raws. length r < 2 ^ 32"
       "\<forall>i < length rest. \<exists>log.
          decompress_block cd (get_compression (rest ! i))
            (take (unat (compressed_size (rest ! i)))
               (drop (pos' + sum_list (map (\<lambda>b. unat (compressed_size b)) (take i rest))) raw))
            (uncompressed_size (rest ! i)) m = Some (Inr (raws ! i, log))"
    by blast
  have idx: "\<exists>log.
        decompress_block cd (get_compression ((old_blk # rest) ! i))
          (take (unat (compressed_size ((old_blk # rest) ! i)))
             (drop (pos + sum_list (map (\<lambda>b. unat (compressed_size b))
                                     (take i (old_blk # rest)))) raw))
          (uncompressed_size ((old_blk # rest) ! i)) m = Some (Inr ((rawb # raws) ! i, log))"
    if "i < length (old_blk # rest)" for i
  proof (cases i)
    case 0
    then show ?thesis using d cb by auto
  next
    case (Suc j)
    then have "j < length rest" using that by simp
    with a(5) obtain lg where
      "decompress_block cd (get_compression (rest ! j))
            (take (unat (compressed_size (rest ! j)))
               (drop (pos' + sum_list (map (\<lambda>b. unat (compressed_size b)) (take j rest))) raw))
            (uncompressed_size (rest ! j)) m = Some (Inr (raws ! j, lg))"
      by blast
    then show ?thesis using Suc p' by (auto simp: add.assoc)
  qed
  show ?case
    using a(1-4) l idx by (intro exI [of _ "rawb # raws"]) simp
qed


lemma decompress_all_results:
  assumes "decompress_all cd mode raw h blocks pos = Some (Inr (payload, nbs))"
  shows "\<exists>raws. length raws = length blocks \<and> payload = concat raws \<and>
     (\<forall>i < length blocks.
        (\<exists>log. decompress_block cd (get_compression (blocks ! i))
           (take (unat (compressed_size (blocks ! i)))
              (drop ((if header_flags h AND FLAG_BLOCK_INFO_NEEDS_ALIGNMENT \<noteq> 0
                      then align16 pos else pos) +
                     sum_list (map (\<lambda>b. unat (compressed_size b)) (take i blocks))) raw))
           (uncompressed_size (blocks ! i)) mode = Some (Inr (raws ! i, log))) \<and>
        unat (uncompressed_size (nbs ! i)) = length (raws ! i) \<and>
        unat (compressed_size (nbs ! i)) = length (raws ! i) \<and>
        flags (nbs ! i) = 0)"
proof -
  from decompress_blocks_results [OF assms [unfolded decompress_all_def]]
  obtain raws where
    a: "length raws = length blocks" "payload = [] @ concat raws"
       "nbs = [] @ map (\<lambda>r. \<lparr> uncompressed_size = word_of_nat (length r),
                              compressed_size = word_of_nat (length r), flags = 0 \<rparr>) raws"
       "\<forall>r \<in> set raws. length r < 2 ^ 32"
       "\<forall>i < length blocks. \<exists>log.
        decompress_block cd (get_compression (blocks ! i))
          (take (unat (compressed_size (blocks ! i)))
             (drop ((if header_flags h AND FLAG_BLOCK_INFO_NEEDS_ALIGNMENT \<noteq> 0
                      then align16 pos else pos) +
                    sum_list (map (\<lambda>b. unat (compressed_size b)) (take i blocks))) raw))
          (uncompressed_size (blocks ! i)) mode = Some (Inr (raws ! i, log))"
    by blast
  have "unat (uncompressed_size (nbs ! i)) = length (raws ! i) \<and>
        unat (compressed_size (nbs ! i)) = length (raws ! i) \<and> flags (nbs ! i) = 0"
    if "i < length blocks" for i
  proof -
    have "raws ! i \<in> set raws" using that a(1) by simp
    then have "length (raws ! i) < 2 ^ 32" using a(4) by blast
    then show ?thesis using that a(1,3) by (simp add: unat_word_of_nat_32)
  qed
  then show ?thesis using a(1,2,5) by (intro exI [of _ raws]) simp
qed

text \<open>
  Claim C1 (amended). Whenever a conversion succeeds, the header read back from the output
  has the flags field \<open>0x40\<close> (directory and blocks combined, no other bit), and the table
  read back from the output, at the position behind that header, holds one block descriptor
  for each block descriptor of the input, each with flags 0 and with compressed size equal
  to uncompressed size; these sizes add up to the length of the concatenated decompressed
  payload, which is what follows the table in the output. The descriptors are in the order
  of the input blocks: with \<open>raws ! i\<close> the bytes that \<open>decompress_block\<close> returns for the
  \<open>i\<close>-th input block (whose slice starts behind the slices of the blocks before it), the
  payload is the concatenation of the \<open>raws\<close> and the \<open>i\<close>-th new descriptor has both sizes
  equal to the length of \<open>raws ! i\<close>. (There is exactly one descriptor only when the input
  has exactly one block.)
\<close>

theorem C1_output_block_table:
  assumes "process_file cd raw mode = Some (Inr out)"
  shows "\<exists>h blocks nodes pos payload nbs h' raws.
     read_bundle cd raw = Some (Inr (h, blocks, nodes, pos)) \<and>
     decompress_all cd mode raw h blocks pos = Some (Inr (payload, nbs)) \<and>
     read_header out = Inr (h', header_end_pos_approx h) \<and>
     header_flags h' = FLAG_BLOCKS_AND_DIR_COMBINED \<and>
     read_block_info (drop (header_end_pos_approx h) out) = Inr (nbs, nodes) \<and>
     length nbs = length blocks \<and>
     (\<forall>b \<in> set nbs. flags b = 0 \<and> compressed_size b = uncompressed_size b) \<and>
     sum_list (map (\<lambda>b. unat (uncompressed_size b)) nbs) = length payload \<and>
     drop (header_end_pos_approx h + length (build_block_info nbs nodes)) out = payload \<and>
     length raws = length blocks \<and> payload = concat raws \<and>
     (\<forall>i < length blocks.
        (\<exists>log. decompress_block cd (get_compression (blocks ! i))
           (take (unat (compressed_size (blocks ! i)))
              (drop ((if header_flags h AND FLAG_BLOCK_INFO_NEEDS_ALIGNMENT \<noteq> 0
                      then align16 pos else pos) +
                     sum_list (map (\<lambda>b. unat (compressed_size b)) (take i blocks))) raw))
           (uncompressed_size (blocks ! i)) mode = Some (Inr (raws ! i, log))) \<and>
        unat (uncompressed_size (nbs ! i)) = length (raws ! i) \<and>
        unat (compressed_size (nbs ! i)) = length (raws ! i) \<and>
        flags (nbs ! i) = 0)"
proof -
  from assms obtain h blocks nodes pos payload nbs where
    rb: "read_bundle cd raw = Some (Inr (h, blocks, nodes, pos))" and
    da: "decompress_all cd mode raw h blocks pos = Some (Inr (payload, nbs))" and
    out: "out = write_output h (build_block_info nbs nodes) payload"
    by (rule process_file_success)
  note ok = read_bundle_success [OF rb]
  note dp = decompress_all_props [OF da]
  let ?blob = "build_block_info nbs nodes"
  let ?h' = "h\<lparr> bundle_size := total_file_size h ?blob payload,
                  compressed_blocks_info_size := word_of_nat (length ?blob),
                  uncompressed_blocks_info_size := word_of_nat (length ?blob),
                  header_flags := FLAG_BLOCKS_AND_DIR_COMBINED \<rparr>"
  have n: "length nbs < 2 ^ 32" using dp(1) ok(3) by simp
  have 1: "read_header out = Inr (?h', header_end_pos_approx h)"
    unfolding out by (rule read_header_write_output [OF ok(1,2)])
  have 2: "header_flags ?h' = FLAG_BLOCKS_AND_DIR_COMBINED" by simp
  have 3: "read_block_info (drop (header_end_pos_approx h) out) = Inr (nbs, nodes)"
    unfolding out drop_write_output by (rule read_block_info_build_append [OF n ok(4,5)])
  have 4: "\<forall>b \<in> set nbs. flags b = 0 \<and> compressed_size b = uncompressed_size b"
    using dp(2) by simp
  have 5: "drop (header_end_pos_approx h + length ?blob) out = payload"
    unfolding out by (rule drop_write_output_payload)
  from decompress_all_results [OF da] obtain raws where
    6: "length raws = length blocks" "payload = concat raws"
     "\<forall>i < length blocks.
        (\<exists>log. decompress_block cd (get_compression (blocks ! i))
           (take (unat (compressed_size (blocks ! i)))
              (drop ((if header_flags h AND FLAG_BLOCK_INFO_NEEDS_ALIGNMENT \<noteq> 0
                      then align16 pos else pos) +
                     sum_list (map (\<lambda>b. unat (compressed_size b)) (take i blocks))) raw))
           (uncompressed_size (blocks ! i)) mode = Some (Inr (raws ! i, log))) \<and>
        unat (uncompressed_size (nbs ! i)) = length (raws ! i) \<and>
        unat (compressed_size (nbs ! i)) = length (raws ! i) \<and>
        flags (nbs ! i) = 0"
    by blast
  show ?thesis
    apply (rule exI [of _ h], rule exI [of _ blocks], rule exI [of _ nodes])
    apply (rule exI [of _ pos], rule exI [of _ payload], rule exI [of _ nbs])
    apply (rule exI [of _ ?h'], rule exI [of _ raws])
    using rb da 1 2 3 dp(1) 4 dp(3) 5 6 by (intro conjI) assumption+
qed

theorem C1_output_block_table_witness:
  "process_file stored_codecs example_bundle Standard = Some (Inr example_output) \<and>
   (\<exists>h' nbs. read_header example_output = Inr (h', 48) \<and>
      header_flags h' = 0x40 \<and>
      read_block_info (drop 48 example_output) = Inr (nbs, example_nodes) \<and>
      length nbs = 2 \<and>
      sum_list (map (\<lambda>b. unat (uncompressed_size b)) nbs) = 7 \<and>
      map (\<lambda>b. unat (uncompressed_size b)) nbs = [3, 4])"
proof -
  from C1_output_block_table [OF example_process_file [of Standard]]
  obtain h blocks nodes pos payload nbs h' where
    a: "read_bundle stored_codecs example_bundle = Some (Inr (h, blocks, nodes, pos))"
       "decompress_all stored_codecs Standard example_bundle h blocks pos =
          Some (Inr (payload, nbs))"
       "read_header example_output = Inr (h', header_end_pos_approx h)"
       "header_flags h' = FLAG_BLOCKS_AND_DIR_COMBINED"
       "read_block_info (drop (header_end_pos_approx h) example_output) = Inr (nbs, nodes)"
       "length nbs = length blocks"
       "sum_list (map (\<lambda>b. unat (uncompressed_size b)) nbs) = length payload"
    by blast
  from a(1) have e: "h = example_header" "blocks = example_blocks" "nodes = example_nodes"
    "pos = 114"
    by (simp_all add: example_read_bundle)
  from a(2) have p: "payload = [1, 2, 3, 4, 5, 6, 7]" "nbs = example_blocks"
    unfolding e by (simp_all add: example_decompress_all)
  have "length example_blocks = 2"
    "map (\<lambda>b. unat (uncompressed_size b)) example_blocks = [3, 4]"
    by (simp_all add: example_blocks_def)
  with a(3-7) e p show ?thesis
    using example_process_file example_header_end
    by (auto simp: FLAG_BLOCKS_AND_DIR_COMBINED_def)
qed

text \<open>
  The statement of claim C1 as written fails: for the example bundle with two blocks the
  table of the output holds two descriptors, of sizes 3 and 4, while the payload has 7
  bytes.
\<close>

theorem C1_two_blocks_two_descriptors:
  "process_file stored_codecs example_bundle Standard = Some (Inr example_output) \<and>
   read_block_info (drop 48 example_output) =
     Inr ([\<lparr> uncompressed_size = 3, compressed_size = 3, flags = 0 \<rparr>,
           \<lparr> uncompressed_size = 4, compressed_size = 4, flags = 0 \<rparr>], example_nodes) \<and>
   drop 114 example_output = [1, 2, 3, 4, 5, 6, 7]"
proof -
  have "drop 114 example_output = [1, 2, 3, 4, 5, 6, 7]"
    by (simp add: example_output_def)
  then show ?thesis
    using example_process_file example_output_table by (simp add: example_blocks_def)
qed

text \<open>
  Claim C5. Whenever a conversion succeeds, reading the table of the output, at the position
  behind its header, yields the list of file entries read from the input: the same number of
  entries, with the same offset, size, status and path, in the same order. The bytes of
  these entries are the last part of the table in the output, in order, between the count
  of entries and the payload. When the new table is shorter than \<open>2 ^ 32\<close> bytes, reading
  the output as a bundle (with any libraries) succeeds and yields these entries.
\<close>

theorem C5_file_entries_preserved:
  assumes "process_file cd raw mode = Some (Inr out)"
  shows "\<exists>h blocks nodes pos h' nbs.
     read_bundle cd raw = Some (Inr (h, blocks, nodes, pos)) \<and>
     read_header out = Inr (h', header_end_pos_approx h) \<and>
     read_block_info (drop (header_end_pos_approx h) out) = Inr (nbs, nodes) \<and>
     (\<exists>blocks_part payload.
        drop (header_end_pos_approx h) out =
          blocks_part @ u32_be (word_of_nat (length nodes)) @ concat (map node_bytes nodes) @
          payload \<and>
        length blocks_part = 20 + 10 * length blocks) \<and>
     (length (build_block_info nbs nodes) < 2 ^ 32 \<longrightarrow>
        (\<forall>cd'. \<exists>pos'. read_bundle cd' out = Some (Inr (h', nbs, nodes, pos'))))"
proof -
  from assms obtain h blocks nodes pos payload nbs where
    rb: "read_bundle cd raw = Some (Inr (h, blocks, nodes, pos))" and
    da: "decompress_all cd mode raw h blocks pos = Some (Inr (payload, nbs))" and
    out: "out = write_output h (build_block_info nbs nodes) payload"
    by (rule process_file_success)
  note ok = read_bundle_success [OF rb]
  note dp = decompress_all_props [OF da]
  let ?blob = "build_block_info nbs nodes"
  let ?h' = "h\<lparr> bundle_size := total_file_size h ?blob payload,
                  compressed_blocks_info_size := word_of_nat (length ?blob),
                  uncompressed_blocks_info_size := word_of_nat (length ?blob),
                  header_flags := FLAG_BLOCKS_AND_DIR_COMBINED \<rparr>"
  have n: "length nbs < 2 ^ 32" using dp(1) ok(3) by simp
  have 1: "read_header out = Inr (?h', header_end_pos_approx h)"
    unfolding out by (rule read_header_write_output [OF ok(1,2)])
  have 2: "read_block_info (drop (header_end_pos_approx h) out) = Inr (nbs, nodes)"
    unfolding out drop_write_output by (rule read_block_info_build_append [OF n ok(4,5)])
  have 3: "drop (header_end_pos_approx h) out =
      (replicate 16 0 @ u32_be (word_of_nat (length nbs)) @ concat (map block_bytes nbs)) @
      u32_be (word_of_nat (length nodes)) @ concat (map node_bytes nodes) @ payload"
    unfolding out drop_write_output by (simp add: build_block_info_def)
  have 4: "length (replicate 16 (0 :: byte) @ u32_be (word_of_nat (length nbs)) @
      concat (map block_bytes nbs)) = 20 + 10 * length blocks"
    using length_blocks_part [of nbs] dp(1) by simp
  have 5: "length ?blob < 2 ^ 32 \<longrightarrow>
      (\<forall>cd'. \<exists>pos'. read_bundle cd' out = Some (Inr (?h', nbs, nodes, pos')))"
    unfolding out using read_bundle_write_output [OF ok(1,2) n ok(4,5)] by blast
  show ?thesis using rb 1 2 3 4 5 by blast
qed

theorem C5_file_entries_preserved_witness:
  "process_file stored_codecs example_bundle Standard = Some (Inr example_output) \<and>
   read_bundle stored_codecs example_bundle =
     Some (Inr (example_header, example_blocks, example_nodes, 114)) \<and>
   (\<exists>h' nbs. read_header example_output = Inr (h', 48) \<and>
      read_block_info (drop 48 example_output) = Inr (nbs, example_nodes))"
proof -
  from C5_file_entries_preserved [OF example_process_file [of Standard]]
  obtain h blocks nodes pos h' nbs where
    a: "read_bundle stored_codecs example_bundle = Some (Inr (h, blocks, nodes, pos))"
       "read_header example_output = Inr (h', header_end_pos_approx h)"
       "read_block_info (drop (header_end_pos_approx h) example_output) = Inr (nbs, nodes)"
    by blast
  from a(1) have "h = example_header" "nodes = example_nodes"
    by (simp_all add: example_read_bundle)
  with a(2,3) show ?thesis
    using example_process_file example_read_bundle example_header_end by auto
qed

text \<open>
  Claim C7. Whenever a conversion succeeds, the eight bytes written behind the two version
  strings are the big-endian form of the serialized header length plus the size of the new
  table plus the length of the payload, where the header length is the length of the header
  fields rounded up to the next multiple of 16 when the format version is at least 7. That
  header length is the number of bytes the output has before the table, the field lies
  within them, the sum is the length of the whole output, and reading the header of the
  output back gives the sum as its declared total size.
\<close>

theorem C7_total_size_field:
  assumes "process_file cd raw mode = Some (Inr out)"
  shows "\<exists>h blocks nodes pos payload nbs h'.
     read_bundle cd raw = Some (Inr (h, blocks, nodes, pos)) \<and>
     decompress_all cd mode raw h blocks pos = Some (Inr (payload, nbs)) \<and>
     (let blob = build_block_info nbs nodes;
          k = length (header_start h) + 20;
          header_len = (if version h \<ge> 7 then (k + 15) div 16 * 16 else k);
          total = header_len + length blob + length payload
      in out = write_header h blob payload @ blob @ payload \<and>
         length (write_header h blob payload) = header_len \<and>
         take (length (header_start h) + 8) out = header_start h @ s64_be (word_of_nat total) \<and>
         length out = total \<and>
         read_header out = Inr (h', header_len) \<and>
         bundle_size h' = word_of_nat total)"
proof -
  from assms obtain h blocks nodes pos payload nbs where
    rb: "read_bundle cd raw = Some (Inr (h, blocks, nodes, pos))" and
    da: "decompress_all cd mode raw h blocks pos = Some (Inr (payload, nbs))" and
    out: "out = write_output h (build_block_info nbs nodes) payload"
    by (rule process_file_success)
  note ok = read_bundle_success [OF rb]
  let ?blob = "build_block_info nbs nodes"
  let ?h' = "h\<lparr> bundle_size := total_file_size h ?blob payload,
                  compressed_blocks_info_size := word_of_nat (length ?blob),
                  uncompressed_blocks_info_size := word_of_nat (length ?blob),
                  header_flags := FLAG_BLOCKS_AND_DIR_COMBINED \<rparr>"
  define header_len where "header_len = header_end_pos_approx h"
  have hl: "header_len =
      (if version h \<ge> 7 then (length (header_start h) + 20 + 15) div 16 * 16
       else length (header_start h) + 20)"
    unfolding header_len_def by (rule header_end_pos_approx_div)
  have 1: "out = write_header h ?blob payload @ ?blob @ payload"
    by (simp add: out write_output_def)
  have 2: "length (write_header h ?blob payload) = header_len"
    by (simp add: length_write_header header_len_def)
  have 3: "take (length (header_start h) + 8) out =
      header_start h @ s64_be (word_of_nat (header_len + length ?blob + length payload))"
    unfolding out take_write_output by (simp add: total_file_size_def header_len_def)
  have 4: "length out = header_len + length ?blob + length payload"
    by (simp add: out length_write_output header_len_def)
  have 5: "read_header out = Inr (?h', header_len)"
    unfolding out header_len_def by (rule read_header_write_output [OF ok(1,2)])
  have 6: "bundle_size ?h' = word_of_nat (header_len + length ?blob + length payload)"
    by (simp add: total_file_size_def header_len_def)
  show ?thesis
    apply (rule exI [of _ h], rule exI [of _ blocks], rule exI [of _ nodes])
    apply (rule exI [of _ pos], rule exI [of _ payload], rule exI [of _ nbs])
    apply (rule exI [of _ ?h'])
    unfolding Let_def hl [symmetric]
    using rb da 1 2 3 4 5 6 by blast
qed


theorem C7_total_size_field_witness:
  "process_file stored_codecs example_bundle Standard = Some (Inr example_output) \<and>
   length example_output = 121 \<and>
   take 24 example_output = header_start example_header @ s64_be 121 \<and>
   (\<exists>h'. read_header example_output = Inr (h', 48) \<and> bundle_size h' = 121)"
proof -
  from C7_total_size_field [OF example_process_file [of Standard]]
  obtain h blocks nodes pos payload nbs h' where
    a: "read_bundle stored_codecs example_bundle = Some (Inr (h, blocks, nodes, pos))"
       "decompress_all stored_codecs Standard example_bundle h blocks pos =
          Some (Inr (payload, nbs))" and
    b: "let blob = build_block_info nbs nodes;
          k = length (header_start h) + 20;
          header_len = (if version h \<ge> 7 then (k + 15) div 16 * 16 else k);
          total = header_len + length blob + length payload
      in example_output = write_header h blob payload @ blob @ payload \<and>
         length (write_header h blob payload) = header_len \<and>
         take (length (header_start h) + 8) example_output =
           header_start h @ s64_be (word_of_nat total) \<and>
         length example_output = total \<and>
         read_header example_output = Inr (h', header_len) \<and>
         bundle_size h' = word_of_nat total"
    by blast
  from a(1) have e: "h = example_header" "blocks = example_blocks" "nodes = example_nodes"
    "pos = 114"
    by (simp_all add: example_read_bundle)
  from a(2) have p: "payload = [1, 2, 3, 4, 5, 6, 7]" "nbs = example_blocks"
    unfolding e by (simp_all add: example_decompress_all)
  have l: "length (build_block_info example_blocks example_nodes) = 66"
    by (simp add: example_blocks_def example_nodes_def build_block_info_def)
  have v: "version example_header \<ge> 7" by (simp add: example_header_def)
  from b show ?thesis
    unfolding e p Let_def
    using example_process_file l v by (simp add: example_header_start_length)
qed

subsection \<open>The example under the proprietary identifier\<close>

lemma example_lzham_read_header:
  "read_header example_lzham_bundle = Inr (example_lzham_header, 48)"
  by (simp add: read_header_def example_lzham_bundle_def example_lzham_header_def reader_defs
      UnityFS_def align16_eq)

lemma example_lzham_table:
  "take 66 (drop 48 example_lzham_bundle) = build_block_info example_lzham_blocks example_nodes"
  by (simp add: example_lzham_bundle_def example_lzham_blocks_def example_nodes_def writer_defs)

lemma example_lzham_read_block_info:
  "read_block_info (build_block_info example_lzham_blocks example_nodes) =
     Inr (example_lzham_blocks, example_nodes)"
  by (rule read_block_info_build) (simp_all add: example_lzham_blocks_def example_nodes_def)

lemma example_lzham_span:
  "get_span example_lzham_bundle 48 (unat (compressed_blocks_info_size example_lzham_header)) =
     Inr (build_block_info example_lzham_blocks example_nodes, 114)"
proof -
  have "length example_lzham_bundle = 121" by (simp add: example_lzham_bundle_def)
  then show ?thesis
    using example_lzham_table by (simp add: get_span_def example_lzham_header_def)
qed

lemma example_lzham_type:
  "compression_type_of (header_flags example_lzham_header AND FLAG_COMPRESSION_MASK) = Lzham"
  by (simp add: example_lzham_header_def compression_type_of_def FLAG_COMPRESSION_MASK_def)

lemma example_lzham_table_length:
  "length (build_block_info example_lzham_blocks example_nodes) = 66"
  by (simp add: example_lzham_blocks_def example_nodes_def build_block_info_def)

lemma resize_same: "length xs = n \<Longrightarrow> resize n xs = xs"
  by (simp add: resize_def)

lemma example_lzham_read_bundle:
  "read_bundle stored_codecs example_lzham_bundle =
     Some (Inr (example_lzham_header, example_lzham_blocks, example_nodes, 114))"
proof -
  have u: "unat (uncompressed_blocks_info_size example_lzham_header) = 66"
    by (simp add: example_lzham_header_def)
  have "decompress_block stored_codecs Lzham
          (build_block_info example_lzham_blocks example_nodes)
          (uncompressed_blocks_info_size example_lzham_header) Standard =
        Some (Inr (build_block_info example_lzham_blocks example_nodes, []))"
    by (simp add: decompress_block_def stored_codecs_def u example_lzham_table_length
        resize_same)
  then show ?thesis
    by (simp add: read_bundle_def example_lzham_read_header example_lzham_span
        example_lzham_type example_lzham_read_block_info)
qed

lemma example_lzham_decompress_all:
  "decompress_all stored_codecs Arknights example_lzham_bundle example_lzham_header
     example_lzham_blocks 114 =
     Some (Inr ([1, 2, 3, 0x30, 1, 2, 3], example_blocks))"
proof -
  have c1: "get_compression \<lparr> uncompressed_size = 3, compressed_size = 3, flags = 0 \<rparr> = None_t"
    by (simp add: get_compression_def compression_type_of_def)
  have c2: "get_compression \<lparr> uncompressed_size = 5, compressed_size = 4, flags = 4 \<rparr> = Lzham"
    by (simp add: get_compression_def compression_type_of_def FLAG_COMPRESSION_MASK_def)
  have g1: "get_span example_lzham_bundle 114 3 = Inr ([1, 2, 3], 117)"
    by (simp add: get_span_def example_lzham_bundle_def)
  have g2: "get_span example_lzham_bundle 117 4 = Inr ([0x03, 1, 2, 3], 121)"
    by (simp add: get_span_def example_lzham_bundle_def)
  show ?thesis
    by (simp add: decompress_all_def example_lzham_header_def example_lzham_blocks_def
        example_blocks_def FLAG_BLOCK_INFO_NEEDS_ALIGNMENT_def c1 c2 g1 g2
        decompress_block_None stored_lzak_example)
qed

lemma example_lzham_write_output:
  "write_output example_lzham_header (build_block_info example_blocks example_nodes)
     [1, 2, 3, 0x30, 1, 2, 3] = example_lzham_output"
  by (simp add: write_output_def write_header_def header_start_def write_string_def
      write_align16_def total_file_size_def header_end_pos_approx_def UnityFS_def
      FLAG_BLOCKS_AND_DIR_COMBINED_def example_lzham_header_def example_blocks_def
      example_nodes_def example_lzham_output_def writer_defs Let_def)

lemma example_lzham_process_file:
  "process_file stored_codecs example_lzham_bundle Arknights = Some (Inr example_lzham_output)"
  by (simp add: process_file_def example_lzham_read_bundle example_lzham_decompress_all
      example_lzham_write_output)


subsection \<open>The table stage\<close>

lemma decompress_block_Standard_total: "decompress_block cd t src n Standard \<noteq> None"
  by (cases t) (simp_all add: decompress_block_def split: prod.splits)

lemma read_bundle_total: "read_bundle cd raw \<noteq> None"
proof (cases "read_header raw")
  case (Inl e)
  then show ?thesis by (simp add: read_bundle_def)
next
  case (Inr hp)
  obtain h p where hp: "hp = (h, p)" by (cases hp)
  note rh = Inr [unfolded hp]
  show ?thesis
  proof (cases "get_span raw p (unat (compressed_blocks_info_size h))")
    case (Inl e)
    then show ?thesis using rh by (simp add: read_bundle_def)
  next
    case (Inr sp)
    obtain s p' where sp: "sp = (s, p')" by (cases sp)
    obtain y where "decompress_block cd
        (compression_type_of (header_flags h AND FLAG_COMPRESSION_MASK)) s
        (uncompressed_blocks_info_size h) Standard = Some y"
      using decompress_block_Standard_total by fastforce
    then show ?thesis
      using rh Inr sp by (simp add: read_bundle_def split: sum.splits prod.splits)
  qed
qed

lemma read_bundle_lzham:
  assumes "read_header raw = Inr (h, p)"
    and "get_span raw p (unat (compressed_blocks_info_size h)) = Inr (raw_block_info, p')"
    and "compression_type_of (header_flags h AND FLAG_COMPRESSION_MASK) = Lzham"
  shows "read_bundle cd raw =
     (case lzham_decompress_memory cd raw_block_info (unat (uncompressed_blocks_info_size h)) of
        (st, written) \<Rightarrow>
          if st \<noteq> LZHAM_COMP_STATUS_SUCCESS cd
          then Some (Inl (RuntimeError ''LZHAM Decomp failed''))
          else (case read_block_info (resize (unat (uncompressed_blocks_info_size h)) written) of
                  Inl e \<Rightarrow> Some (Inl e)
                | Inr (blocks, nodes) \<Rightarrow> Some (Inr (h, blocks, nodes, p'))))"
  using assms
  by (simp add: read_bundle_def decompress_block_def split: prod.splits sum.splits)

lemma read_bundle_lzham_ignores_lz4:
  assumes "read_header raw = Inr (h, p)"
    and "compression_type_of (header_flags h AND FLAG_COMPRESSION_MASK) = Lzham"
  shows "read_bundle (cd\<lparr>LZ4_decompress_safe := f\<rparr>) raw = read_bundle cd raw"
  using assms
  by (simp add: read_bundle_def decompress_block_def split: prod.splits sum.splits)

text \<open>
  Claim C9. The table stage of a conversion, \<open>read_bundle\<close>, does not depend on the game
  variant: it always returns (the loop of the pre-transform decoder, the only part of the
  model that may not return, is not entered), an error of the table stage is the result of
  the conversion for either variant, and a successful conversion for either variant wrote
  the file entries of that one table and one descriptor per block of it. When the header
  names the proprietary identifier, the table is what the standard LZHAM library returns
  for the table slice, and replacing the LZ4 library, which only the pre-transform decoder
  calls under that identifier, changes nothing.
\<close>

theorem C9_table_decoded_as_standard:
  "read_bundle cd raw \<noteq> None \<and>
   (read_bundle cd raw = Some (Inl e) \<longrightarrow> process_file cd raw mode = Some (Inl e)) \<and>
   (process_file cd raw mode = Some (Inr out) \<longrightarrow>
      (\<exists>h blocks nodes pos nbs.
         read_bundle cd raw = Some (Inr (h, blocks, nodes, pos)) \<and>
         read_block_info (drop (header_end_pos_approx h) out) = Inr (nbs, nodes) \<and>
         length nbs = length blocks)) \<and>
   (read_header raw = Inr (h, p) \<and>
    get_span raw p (unat (compressed_blocks_info_size h)) = Inr (raw_block_info, p') \<and>
    compression_type_of (header_flags h AND FLAG_COMPRESSION_MASK) = Lzham \<longrightarrow>
      read_bundle cd raw =
        (case lzham_decompress_memory cd raw_block_info
                (unat (uncompressed_blocks_info_size h)) of
           (st, written) \<Rightarrow>
             if st \<noteq> LZHAM_COMP_STATUS_SUCCESS cd
             then Some (Inl (RuntimeError ''LZHAM Decomp failed''))
             else (case read_block_info
                          (resize (unat (uncompressed_blocks_info_size h)) written) of
                     Inl e \<Rightarrow> Some (Inl e)
                   | Inr (blocks, nodes) \<Rightarrow> Some (Inr (h, blocks, nodes, p'))))) \<and>
   (read_header raw = Inr (h, p) \<and>
    compression_type_of (header_flags h AND FLAG_COMPRESSION_MASK) = Lzham \<longrightarrow>
      read_bundle (cd\<lparr>LZ4_decompress_safe := f\<rparr>) raw = read_bundle cd raw)"
proof (intro conjI impI)
  show "read_bundle cd raw \<noteq> None" by (rule read_bundle_total)
next
  assume "read_bundle cd raw = Some (Inl e)"
  then show "process_file cd raw mode = Some (Inl e)" by (simp add: process_file_def)
next
  assume a: "process_file cd raw mode = Some (Inr out)"
  from a obtain h blocks nodes pos payload nbs where
    rb: "read_bundle cd raw = Some (Inr (h, blocks, nodes, pos))" and
    da: "decompress_all cd mode raw h blocks pos = Some (Inr (payload, nbs))" and
    out: "out = write_output h (build_block_info nbs nodes) payload"
    by (rule process_file_success)
  note ok = read_bundle_success [OF rb]
  note dp = decompress_all_props [OF da]
  have n: "length nbs < 2 ^ 32" using dp(1) ok(3) by simp
  have "read_block_info (drop (header_end_pos_approx h) out) = Inr (nbs, nodes)"
    unfolding out drop_write_output by (rule read_block_info_build_append [OF n ok(4,5)])
  then show "\<exists>h blocks nodes pos nbs.
         read_bundle cd raw = Some (Inr (h, blocks, nodes, pos)) \<and>
         read_block_info (drop (header_end_pos_approx h) out) = Inr (nbs, nodes) \<and>
         length nbs = length blocks"
    using rb dp(1) by blast
next
  assume "read_header raw = Inr (h, p) \<and>
    get_span raw p (unat (compressed_blocks_info_size h)) = Inr (raw_block_info, p') \<and>
    compression_type_of (header_flags h AND FLAG_COMPRESSION_MASK) = Lzham"
  then show "read_bundle cd raw =
        (case lzham_decompress_memory cd raw_block_info
                (unat (uncompressed_blocks_info_size h)) of
           (st, written) \<Rightarrow>
             if st \<noteq> LZHAM_COMP_STATUS_SUCCESS cd
             then Some (Inl (RuntimeError ''LZHAM Decomp failed''))
             else (case read_block_info
                          (resize (unat (uncompressed_blocks_info_size h)) written) of
                     Inl e \<Rightarrow> Some (Inl e)
                   | Inr (blocks, nodes) \<Rightarrow> Some (Inr (h, blocks, nodes, p'))))"
    using read_bundle_lzham by blast
next
  assume "read_header raw = Inr (h, p) \<and>
    compression_type_of (header_flags h AND FLAG_COMPRESSION_MASK) = Lzham"
  then show "read_bundle (cd\<lparr>LZ4_decompress_safe := f\<rparr>) raw = read_bundle cd raw"
    using read_bundle_lzham_ignores_lz4 by blast
qed

lemma read_bundle_empty: "read_bundle cd [] = Some (Inl OutOfRange)"
  by (simp add: read_bundle_def read_header_def reader_defs)

lemma example_lzham_header_end: "header_end_pos_approx example_lzham_header = 48"
  by (simp add: header_end_pos_approx_def header_start_def write_string_def UnityFS_def
      example_lzham_header_def Let_def)

theorem C9_table_decoded_as_standard_witness:
  "process_file stored_codecs [] Arknights = Some (Inl OutOfRange) \<and>
   process_file stored_codecs example_lzham_bundle Arknights = Some (Inr example_lzham_output) \<and>
   (\<exists>nbs. read_block_info (drop 48 example_lzham_output) = Inr (nbs, example_nodes) \<and>
      length nbs = 2) \<and>
   read_bundle stored_codecs example_lzham_bundle =
     Some (Inr (example_lzham_header, example_lzham_blocks, example_nodes, 114)) \<and>
   read_bundle (stored_codecs\<lparr>LZ4_decompress_safe := (\<lambda>s cs cap. (- 1, []))\<rparr>)
     example_lzham_bundle =
     Some (Inr (example_lzham_header, example_lzham_blocks, example_nodes, 114))"
proof -
  note e = C9_table_decoded_as_standard [of stored_codecs "[]" OutOfRange Arknights]
  note x = C9_table_decoded_as_standard [of stored_codecs example_lzham_bundle _ Arknights
      example_lzham_output example_lzham_header 48
      "build_block_info example_lzham_blocks example_nodes" 114 "\<lambda>s cs cap. (- 1, [])"]
  have 1: "process_file stored_codecs [] Arknights = Some (Inl OutOfRange)"
    using e read_bundle_empty by blast
  from x example_lzham_process_file obtain h blocks nodes pos nbs where
    a: "read_bundle stored_codecs example_lzham_bundle = Some (Inr (h, blocks, nodes, pos))"
       "read_block_info (drop (header_end_pos_approx h) example_lzham_output) = Inr (nbs, nodes)"
       "length nbs = length blocks"
    by blast
  from a(1) have "h = example_lzham_header" "blocks = example_lzham_blocks"
    "nodes = example_nodes"
    by (simp_all add: example_lzham_read_bundle)
  with a(2,3) have 2: "\<exists>nbs. read_block_info (drop 48 example_lzham_output) =
      Inr (nbs, example_nodes) \<and> length nbs = 2"
    by (auto simp: example_lzham_header_end example_lzham_blocks_def)
  have 3: "read_bundle (stored_codecs\<lparr>LZ4_decompress_safe := (\<lambda>s cs cap. (- 1, []))\<rparr>)
     example_lzham_bundle = read_bundle stored_codecs example_lzham_bundle"
    using x example_lzham_read_header example_lzham_type by blast
  show ?thesis
    using 1 2 3 example_lzham_process_file example_lzham_read_bundle by simp
qed

end
